theory Spec2Isabelle
  imports Complex_Main
begin

section \<open>Exceptions and arrays\<close>

text \<open>
  The module \<^verbatim>\<open>pyls/utils.py\<close> works on NumPy arrays. An exception raised by
  NumPy is a value of type \<open>error\<close>; a function that may raise returns
  \<open>error + 'a\<close>, with \<open>Inl\<close> for the exception.
\<close>

datatype error = ValueError | IndexError | AxisError | TypeError

text \<open>
  A list comprehension \<^verbatim>\<open>[f(x) for x in xs]\<close> evaluates \<open>f\<close> from left to
  right and stops at the first exception.
\<close>

fun list_comp :: "('a \<Rightarrow> error + 'b) \<Rightarrow> 'a list \<Rightarrow> error + 'b list" where
  "list_comp f [] = Inr []"
| "list_comp f (x # xs) =
     (case f x of
        Inl e \<Rightarrow> Inl e
      | Inr y \<Rightarrow> (case list_comp f xs of Inl e \<Rightarrow> Inl e | Inr ys \<Rightarrow> Inr (y # ys)))"

text \<open>Sequencing: the first exception ends the computation.\<close>

definition bind_err :: "error + 'a \<Rightarrow> ('a \<Rightarrow> error + 'b) \<Rightarrow> error + 'b" where
  "bind_err m f = (case m of Inl e \<Rightarrow> Inl e | Inr x \<Rightarrow> f x)"

text \<open>
  A two-dimensional array carries its shape and its rows. The shape is kept beside the
  rows because an array with no rows still has a number of columns.
\<close>

record 'a ndarray =
  shape0 :: nat
  shape1 :: nat
  rows :: "'a list list"

definition valid_array :: "'a ndarray \<Rightarrow> bool" where
  "valid_array A \<longleftrightarrow>
     length (rows A) = shape0 A \<and> (\<forall>r \<in> set (rows A). length r = shape1 A)"

definition column :: "'a ndarray \<Rightarrow> nat \<Rightarrow> 'a list" where
  "column A j = map (\<lambda>r. r ! j) (rows A)"

text \<open>\<^verbatim>\<open>A.T\<close>\<close>

definition transpose_arr :: "'a ndarray \<Rightarrow> 'a ndarray" where
  "transpose_arr A =
     \<lparr>shape0 = shape1 A, shape1 = shape0 A, rows = map (column A) [0..<shape1 A]\<rparr>"

text \<open>\<^verbatim>\<open>np.atleast_2d\<close> of a one-dimensional array: a single row.\<close>

definition atleast_2d :: "'a list \<Rightarrow> 'a ndarray" where
  "atleast_2d v = \<lparr>shape0 = 1, shape1 = length v, rows = [v]\<rparr>"

text \<open>
  \<^verbatim>\<open>np.row_stack\<close> (\<^verbatim>\<open>np.vstack\<close>) concatenates along axis 0. NumPy raises
  \<^verbatim>\<open>ValueError\<close> for an empty sequence ("need at least one array to concatenate") and
  for arrays whose column counts differ.
\<close>

definition row_stack :: "'a ndarray list \<Rightarrow> error + 'a ndarray" where
  "row_stack arrs =
     (if arrs = [] then Inl ValueError
      else if \<exists>A \<in> set arrs. shape1 A \<noteq> shape1 (hd arrs) then Inl ValueError
      else Inr \<lparr>shape0 = sum_list (map shape0 arrs), shape1 = shape1 (hd arrs),
                rows = concat (map rows arrs)\<rparr>)"

text \<open>
  \<^verbatim>\<open>np.column_stack\<close> of one-dimensional arrays makes each one a column. It raises
  \<^verbatim>\<open>ValueError\<close> for an empty sequence and for arrays of different lengths.
\<close>

definition column_stack :: "'a list list \<Rightarrow> error + 'a ndarray" where
  "column_stack cols =
     (if cols = [] then Inl ValueError
      else if \<exists>c \<in> set cols. length c \<noteq> length (hd cols) then Inl ValueError
      else Inr \<lparr>shape0 = length (hd cols), shape1 = length cols,
                rows = map (\<lambda>i. map (\<lambda>c. c ! i) cols) [0..<length (hd cols)]\<rparr>)"

text \<open>\<^verbatim>\<open>A.sum(0)\<close>: the sum over axis 0, one entry per column.\<close>

definition sum_axis0 :: "'a::monoid_add ndarray \<Rightarrow> 'a list" where
  "sum_axis0 A = map (\<lambda>j. sum_list (column A j)) [0..<shape1 A]"

text \<open>\<^verbatim>\<open>np.unique\<close>: the distinct values in ascending order.\<close>

definition unique :: "'l::linorder list \<Rightarrow> 'l list" where
  "unique g = sort (remdups g)"

text \<open>\<^verbatim>\<open>grouping == grp\<close>: the elementwise comparison with a scalar.\<close>

definition eq_mask :: "'l list \<Rightarrow> 'l \<Rightarrow> bool list" where
  "eq_mask g grp = map (\<lambda>x. x = grp) g"

text \<open>\<^verbatim>\<open>mask.astype(int)\<close>\<close>

definition astype_int :: "bool list \<Rightarrow> int list" where
  "astype_int m = map (\<lambda>b. if b then 1 else 0) m"

text \<open>
  \<^verbatim>\<open>A[mask]\<close> with a boolean mask over axis 0 keeps the rows whose mask entry is true.
  NumPy raises \<^verbatim>\<open>IndexError\<close> when the length of the mask is not the number of rows.
\<close>

definition bool_index :: "'a ndarray \<Rightarrow> bool list \<Rightarrow> error + 'a ndarray" where
  "bool_index A msk =
     (if length msk \<noteq> shape0 A then Inl IndexError
      else Inr \<lparr>shape0 = length (filter id msk), shape1 = shape1 A,
                rows = map fst (filter snd (zip (rows A) msk))\<rparr>)"

text \<open>
  Index assignment. \<^verbatim>\<open>v[idx] = c\<close> on a one-dimensional array, \<^verbatim>\<open>A[:, idx] = c\<close> on the
  columns of a two-dimensional array, and \<^verbatim>\<open>A[(ii, jj)] = c\<close> with a tuple of index arrays
  (here a list of index pairs). An index outside the array raises \<^verbatim>\<open>IndexError\<close>.
\<close>

definition setitem :: "'a list \<Rightarrow> nat list \<Rightarrow> 'a \<Rightarrow> error + 'a list" where
  "setitem v idx c =
     (if \<forall>i \<in> set idx. i < length v then Inr (fold (\<lambda>i w. w[i := c]) idx v)
      else Inl IndexError)"

definition setitem_columns :: "'a ndarray \<Rightarrow> nat list \<Rightarrow> 'a \<Rightarrow> error + 'a ndarray" where
  "setitem_columns A idx c =
     (if \<forall>j \<in> set idx. j < shape1 A
      then Inr (A\<lparr>rows := map (\<lambda>r. fold (\<lambda>j w. w[j := c]) idx r) (rows A)\<rparr>)
      else Inl IndexError)"

definition setitem_2d :: "'a ndarray \<Rightarrow> (nat \<times> nat) list \<Rightarrow> 'a \<Rightarrow> error + 'a ndarray" where
  "setitem_2d A idx c =
     (if \<forall>(i, j) \<in> set idx. i < shape0 A \<and> j < shape1 A
      then Inr (A\<lparr>rows := fold (\<lambda>(i, j) rs. rs[i := (rs ! i)[j := c]]) idx (rows A)\<rparr>)
      else Inl IndexError)"

text \<open>
  Broadcasting of two two-dimensional arrays: along each axis the sizes agree or one of
  them is 1, otherwise NumPy raises \<^verbatim>\<open>ValueError\<close>. An axis of size 1 is read at index 0.
\<close>

definition broadcast_dim :: "nat \<Rightarrow> nat \<Rightarrow> nat option" where
  "broadcast_dim a b =
     (if a = b then Some a else if a = 1 then Some b else if b = 1 then Some a else None)"

definition broadcast_op ::
  "('a \<Rightarrow> 'b \<Rightarrow> 'c) \<Rightarrow> 'a ndarray \<Rightarrow> 'b ndarray \<Rightarrow> error + 'c ndarray" where
  "broadcast_op f A B =
     (case (broadcast_dim (shape0 A) (shape0 B), broadcast_dim (shape1 A) (shape1 B)) of
        (Some n, Some m) \<Rightarrow>
          Inr \<lparr>shape0 = n, shape1 = m,
               rows = map (\<lambda>i. map (\<lambda>j.
                        f (rows A ! (if shape0 A = 1 then 0 else i)
                                  ! (if shape1 A = 1 then 0 else j))
                          (rows B ! (if shape0 B = 1 then 0 else i)
                                  ! (if shape1 B = 1 then 0 else j)))
                      [0..<m]) [0..<n]\<rparr>
      | _ \<Rightarrow> Inl ValueError)"

section \<open>Floating-point values in exact arithmetic\<close>

text \<open>
  The entries of a float array are real numbers, computed exactly (no rounding, no
  overflow, no underflow, no signed zero), together with the three special values that
  NumPy's arithmetic produces instead of raising: a division by zero gives \<open>NaN\<close> or an
  infinity and a warning, never an exception. The operations below therefore idealise
  IEEE arithmetic. What is proved with them concerns exceptions, shapes and which
  entries are combined into which, and the values computed at concrete inputs (sums and
  products of zeros, \<open>0 / 0\<close>) are the same in IEEE arithmetic; nothing is stated that
  rests on the absence of rounding.
\<close>

datatype npfloat = is_Fin: Fin (real_of: real) | PInf | NInf | NaN

definition inf_of_sign :: "real \<Rightarrow> npfloat" where
  "inf_of_sign s = (if s = 0 then NaN else if 0 < s then PInf else NInf)"

fun np_sgn :: "npfloat \<Rightarrow> real" where
  "np_sgn (Fin a) = sgn a"
| "np_sgn PInf = 1"
| "np_sgn NInf = - 1"
| "np_sgn NaN = 0"

fun np_neg :: "npfloat \<Rightarrow> npfloat" where
  "np_neg (Fin a) = Fin (- a)"
| "np_neg PInf = NInf"
| "np_neg NInf = PInf"
| "np_neg NaN = NaN"

fun np_add :: "npfloat \<Rightarrow> npfloat \<Rightarrow> npfloat" where
  "np_add (Fin a) (Fin b) = Fin (a + b)"
| "np_add NaN y = NaN"
| "np_add x NaN = NaN"
| "np_add PInf NInf = NaN"
| "np_add NInf PInf = NaN"
| "np_add PInf y = PInf"
| "np_add x PInf = PInf"
| "np_add NInf y = NInf"
| "np_add x NInf = NInf"

definition np_sub :: "npfloat \<Rightarrow> npfloat \<Rightarrow> npfloat" where
  "np_sub x y = np_add x (np_neg y)"

fun np_mul :: "npfloat \<Rightarrow> npfloat \<Rightarrow> npfloat" where
  "np_mul (Fin a) (Fin b) = Fin (a * b)"
| "np_mul NaN y = NaN"
| "np_mul x NaN = NaN"
| "np_mul x y = inf_of_sign (np_sgn x * np_sgn y)"

fun np_div :: "npfloat \<Rightarrow> npfloat \<Rightarrow> npfloat" where
  "np_div (Fin a) (Fin b) = (if b \<noteq> 0 then Fin (a / b) else inf_of_sign a)"
| "np_div NaN y = NaN"
| "np_div x NaN = NaN"
| "np_div (Fin a) y = Fin 0"
| "np_div x (Fin b) = inf_of_sign (np_sgn x * (if 0 \<le> b then 1 else - 1))"
| "np_div x y = NaN"

fun np_sqrt :: "npfloat \<Rightarrow> npfloat" where
  "np_sqrt (Fin a) = (if a < 0 then NaN else Fin (sqrt a))"
| "np_sqrt PInf = PInf"
| "np_sqrt NInf = NaN"
| "np_sqrt NaN = NaN"

text \<open>
  \<^verbatim>\<open>add.reduce\<close>. The addition above is associative and commutative, so the order in
  which NumPy adds the entries does not matter.
\<close>

definition np_sum :: "npfloat list \<Rightarrow> npfloat" where
  "np_sum xs = foldr np_add xs (Fin 0)"

text \<open>\<^verbatim>\<open>mean\<close>: the sum divided by the count; \<open>NaN\<close> for an empty slice.\<close>

definition np_mean :: "npfloat list \<Rightarrow> npfloat" where
  "np_mean xs = np_div (np_sum xs) (Fin (real (length xs)))"

text \<open>
  \<^verbatim>\<open>std\<close> with the default \<^verbatim>\<open>ddof=0\<close>: the square root of the mean of the squared
  deviations from the mean.
\<close>

definition np_std :: "npfloat list \<Rightarrow> npfloat" where
  "np_std xs =
     (let m = np_mean xs
      in np_sqrt (np_div (np_sum (map (\<lambda>x. np_mul (np_sub x m) (np_sub x m)) xs))
                         (Fin (real (length xs)))))"

text \<open>
  \<^verbatim>\<open>np.linalg.norm\<close> of a slice with the default order: the square root of the sum of
  squares.
\<close>

definition np_norm :: "npfloat list \<Rightarrow> npfloat" where
  "np_norm xs = np_sqrt (np_sum (map (\<lambda>x. np_mul x x) xs))"

definition mean_axis0 :: "npfloat ndarray \<Rightarrow> npfloat list" where
  "mean_axis0 A = map (\<lambda>j. np_mean (column A j)) [0..<shape1 A]"

definition std_axis0 :: "npfloat ndarray \<Rightarrow> npfloat list" where
  "std_axis0 A = map (\<lambda>j. np_std (column A j)) [0..<shape1 A]"

text \<open>
  \<^verbatim>\<open>np.linalg.norm(A, axis=axis, keepdims=True)\<close>: the norms of the columns as one row
  (axis 0, also written \<open>-2\<close>) or of the rows as one column (axis 1, also written \<open>-1\<close>).
  Any other axis raises \<^verbatim>\<open>AxisError\<close>.
\<close>

definition norm_keepdims :: "npfloat ndarray \<Rightarrow> int \<Rightarrow> error + npfloat ndarray" where
  "norm_keepdims A axis =
     (if axis = 0 \<or> axis = - 2
      then Inr \<lparr>shape0 = 1, shape1 = shape1 A,
                rows = [map (\<lambda>j. np_norm (column A j)) [0..<shape1 A]]\<rparr>
      else if axis = 1 \<or> axis = - 1
      then Inr \<lparr>shape0 = shape0 A, shape1 = 1, rows = map (\<lambda>r. [np_norm r]) (rows A)\<rparr>
      else Inl AxisError)"

text \<open>
  \<^verbatim>\<open>np.where(v == 0)[0]\<close> on a one-dimensional array, and \<^verbatim>\<open>np.where(B == 0)\<close> on a
  two-dimensional array: the indices of the entries equal to zero, in row-major order.
\<close>

definition where_zero :: "npfloat list \<Rightarrow> nat list" where
  "where_zero v = filter (\<lambda>j. v ! j = Fin 0) [0..<length v]"

definition where_zero_2d :: "npfloat ndarray \<Rightarrow> (nat \<times> nat) list" where
  "where_zero_2d B =
     concat (map (\<lambda>i. map (\<lambda>j. (i, j)) (filter (\<lambda>j. rows B ! i ! j = Fin 0) [0..<shape1 B]))
                 [0..<shape0 B])"

text \<open>\<^verbatim>\<open>A @ B\<close>: NumPy raises \<^verbatim>\<open>ValueError\<close> when the inner sizes differ.\<close>

definition matmul :: "npfloat ndarray \<Rightarrow> npfloat ndarray \<Rightarrow> error + npfloat ndarray" where
  "matmul A B =
     (if shape1 A \<noteq> shape0 B then Inl ValueError
      else Inr \<lparr>shape0 = shape0 A, shape1 = shape1 B,
                rows = map (\<lambda>r. map (\<lambda>j. np_sum (map2 np_mul r (column B j))) [0..<shape1 B])
                           (rows A)\<rparr>)"

text \<open>\<^verbatim>\<open>A / d\<close> with a Python integer \<open>d\<close>: elementwise, never an exception.\<close>

definition divide_scalar :: "npfloat ndarray \<Rightarrow> int \<Rightarrow> npfloat ndarray" where
  "divide_scalar A d = A\<lparr>rows := map (map (\<lambda>x. np_div x (Fin (of_int d)))) (rows A)\<rparr>"

section \<open>Standardising and normalising\<close>

text \<open>
  \<^verbatim>\<open>
  def zscore(X):
      arr = np.array(X)
      avg, stdev = arr.mean(axis=0), arr.std(axis=0)
      zero_items = np.where(stdev == 0)[0]
      if zero_items.size > 0:
          avg[zero_items], stdev[zero_items] = 0, 1
      zarr = (arr - avg) / stdev
      zarr[:, zero_items] = 0
      return zarr
  \<close>
  The one-dimensional \<^verbatim>\<open>avg\<close> and \<^verbatim>\<open>stdev\<close> broadcast against \<^verbatim>\<open>arr\<close> as single rows.
\<close>

definition zscore :: "npfloat ndarray \<Rightarrow> error + npfloat ndarray" where
  "zscore X =
     (let arr = X;
          avg = mean_axis0 arr;
          stdev = std_axis0 arr;
          zero_items = where_zero stdev
      in bind_err
           (if 0 < length zero_items
            then bind_err (setitem avg zero_items (Fin 0)) (\<lambda>avg'.
                 bind_err (setitem stdev zero_items (Fin 1)) (\<lambda>stdev'.
                 Inr (avg', stdev')))
            else Inr (avg, stdev))
           (\<lambda>(avg, stdev).
              bind_err (broadcast_op np_sub arr (atleast_2d avg)) (\<lambda>centred.
              bind_err (broadcast_op np_div centred (atleast_2d stdev)) (\<lambda>zarr.
              setitem_columns zarr zero_items (Fin 0)))))"

text \<open>
  \<^verbatim>\<open>
  def normalize(X, axis=0):
      normed = np.array(X)
      normal_base = np.linalg.norm(normed, axis=axis, keepdims=True)
      # avoid DivideByZero errors
      zero_items = np.where(normal_base == 0)
      normal_base[zero_items] = 1
      # normalize and re-set zero_items to 0
      normed = normed / normal_base
      normed[zero_items] = 0
      return normed
  \<close>
  (The name \<open>normalize\<close> belongs to a constant of the library, so the function is
  \<open>normalize_arr\<close> here.) \<^verbatim>\<open>zero_items\<close> holds positions of \<^verbatim>\<open>normal_base\<close>, whose shape is \<open>(1, J)\<close> or \<open>(N, 1)\<close>;
  the last assignment uses the same positions on \<^verbatim>\<open>normed\<close>, whose shape is \<open>(N, J)\<close>.
\<close>

definition normalize_arr :: "npfloat ndarray \<Rightarrow> int \<Rightarrow> error + npfloat ndarray" where
  "normalize_arr X axis =
     (let normed = X
      in bind_err (norm_keepdims normed axis) (\<lambda>normal_base.
         let zero_items = where_zero_2d normal_base
         in bind_err (setitem_2d normal_base zero_items (Fin 1)) (\<lambda>normal_base.
            bind_err (broadcast_op np_div normed normal_base) (\<lambda>normed.
            setitem_2d normed zero_items (Fin 0)))))"

section \<open>Cross-covariance\<close>

text \<open>
  \<^verbatim>\<open>
  def _compute_xcorr(X, Y):
      Xnz, Ynz = normalize(zscore(X)), normalize(zscore(Y))
      xprod = (Ynz.T @ Xnz) / (Xnz.shape[0] - 1)
      return xprod
  \<close>
  (The name loses its leading underscore here.)
\<close>

definition compute_xcorr :: "npfloat ndarray \<Rightarrow> npfloat ndarray \<Rightarrow> error + npfloat ndarray" where
  "compute_xcorr X Y =
     bind_err (zscore X) (\<lambda>Zx.
     bind_err (normalize_arr Zx 0) (\<lambda>Xnz.
     bind_err (zscore Y) (\<lambda>Zy.
     bind_err (normalize_arr Zy 0) (\<lambda>Ynz.
     bind_err (matmul (transpose_arr Ynz) Xnz) (\<lambda>P.
     Inr (divide_scalar P (int (shape0 Xnz) - 1)))))))"

text \<open>
  \<^verbatim>\<open>
  def xcorr(X, Y, grouping=None):
      if grouping is None:
          return _compute_xcorr(X, Y)
      else:
          return np.row_stack([_compute_xcorr(X[grouping == grp],
                                              Y[grouping == grp])
                               for grp in np.unique(grouping)])
  \<close>
\<close>

definition xcorr ::
  "npfloat ndarray \<Rightarrow> npfloat ndarray \<Rightarrow> 'l::linorder list option \<Rightarrow> error + npfloat ndarray" where
  "xcorr X Y grouping =
     (case grouping of
        None \<Rightarrow> compute_xcorr X Y
      | Some g \<Rightarrow>
          bind_err
            (list_comp (\<lambda>grp.
               bind_err (bool_index X (eq_mask g grp)) (\<lambda>Xg.
               bind_err (bool_index Y (eq_mask g grp)) (\<lambda>Yg.
               compute_xcorr Xg Yg)))
              (unique g))
            row_stack)"

section \<open>Dummy coding\<close>

text \<open>
  \<^verbatim>\<open>
  def dummy_code(grouping):
      groups = np.unique(grouping)
      Y = np.column_stack([(grouping == grp).astype(int) for grp in groups])
      return Y
  \<close>
\<close>

definition dummy_code :: "'l::linorder list \<Rightarrow> error + int ndarray" where
  "dummy_code grouping =
     (let groups = unique grouping
      in column_stack (map (\<lambda>grp. astype_int (eq_mask grouping grp)) groups))"

text \<open>
  \<^verbatim>\<open>
  def reverse_dummy_code(Y):
      grouping = np.row_stack([grp * n for n, grp in enumerate(Y.T, 1)]).sum(0)
      return grouping
  \<close>
  Iterating over \<^verbatim>\<open>Y.T\<close> yields the columns of \<^verbatim>\<open>Y\<close>; \<^verbatim>\<open>np.row_stack\<close> makes each
  scaled column a row.
\<close>

definition reverse_dummy_code :: "'a::semiring_1 ndarray \<Rightarrow> error + 'a list" where
  "reverse_dummy_code Y =
     (case row_stack (map (\<lambda>(n, grp). atleast_2d (map (\<lambda>x. x * of_nat n) grp))
                          (enumerate 1 (rows (transpose_arr Y)))) of
        Inl e \<Rightarrow> Inl e
      | Inr S \<Rightarrow> Inr (sum_axis0 S))"

section \<open>Random generators\<close>

text \<open>
  The arguments that \<open>get_seed\<close> tells apart. A Python \<^verbatim>\<open>bool\<close> is an instance of \<^verbatim>\<open>int\<close>;
  a NumPy integer, a float, a string and everything else is not. An instance of
  \<^verbatim>\<open>np.random.RandomState\<close> is a reference to an object on the heap.
\<close>

datatype pyobj =
    PyNone
  | PyInt int
  | PyBool bool
  | PyFloat real
  | PyStr string
  | PyRandomState nat
  | PyOther

text \<open>
  What \<open>get_seed\<close> returns: a reference to a \<^verbatim>\<open>RandomState\<close> instance, or the module
  \<^verbatim>\<open>np.random\<close>, whose functions draw from NumPy's global generator.
\<close>

datatype rng_handle = Instance nat | NpRandomModule

text \<open>
  The heap of \<^verbatim>\<open>RandomState\<close> instances; a reference is an index. The state of an
  instance is the seed it was built from and the number of draws since.
\<close>

record rng_state =
  seeded_with :: int
  draws :: nat

type_synonym rng_heap = "rng_state list"

fun isinstance_int :: "pyobj \<Rightarrow> bool" where
  "isinstance_int (PyInt n) = True"
| "isinstance_int (PyBool b) = True"
| "isinstance_int x = False"

fun isinstance_RandomState :: "pyobj \<Rightarrow> bool" where
  "isinstance_RandomState (PyRandomState a) = True"
| "isinstance_RandomState x = False"

text \<open>\<^verbatim>\<open>operator.index\<close> of an instance of \<^verbatim>\<open>int\<close>.\<close>

fun index_of :: "pyobj \<Rightarrow> int" where
  "index_of (PyInt n) = n"
| "index_of (PyBool b) = (if b then 1 else 0)"
| "index_of x = 0"

fun address_of :: "pyobj \<Rightarrow> nat" where
  "address_of (PyRandomState a) = a"
| "address_of x = 0"

text \<open>
  \<^verbatim>\<open>np.random.RandomState(seed)\<close> with an integer seed builds a new instance. NumPy
  accepts the seeds from 0 to \<open>2 ^ 32 - 1\<close> and raises \<^verbatim>\<open>ValueError\<close> ("Seed must be
  between 0 and 2**32 - 1") for any other integer.
\<close>

definition RandomState :: "rng_heap \<Rightarrow> int \<Rightarrow> (error + rng_handle) \<times> rng_heap" where
  "RandomState h seed =
     (if seed < 0 \<or> 2 ^ 32 - 1 < seed then (Inl ValueError, h)
      else (Inr (Instance (length h)), h @ [\<lparr>seeded_with = seed, draws = 0\<rparr>]))"

text \<open>
  \<^verbatim>\<open>
  def get_seed(seed=None):
      if seed is not None:
          if isinstance(seed, int):
              return np.random.RandomState(seed)
          elif isinstance(seed, np.random.RandomState):
              return seed
      return np.random
  \<close>
\<close>

definition get_seed :: "rng_heap \<Rightarrow> pyobj \<Rightarrow> (error + rng_handle) \<times> rng_heap" where
  "get_seed h seed =
     (if seed \<noteq> PyNone
      then (if isinstance_int seed then RandomState h (index_of seed)
            else if isinstance_RandomState seed then (Inr (Instance (address_of seed)), h)
            else (Inr NpRandomModule, h))
      else (Inr NpRandomModule, h))"

section \<open>The functions on a store of arrays\<close>

text \<open>
  NumPy arrays are mutable objects, and the module assigns into arrays. To say what a call
  does to the arrays of its caller, the functions are written once more over an explicit
  store: a list of arrays, a reference being an index. Creating an array appends to the
  store; an index assignment replaces the array at its reference. Arrays that are only
  read after they are made (boolean masks, index arrays, the sorted labels, transposed
  views) are passed as values.
\<close>

datatype 'l cell =
    Float2 "npfloat ndarray"
  | Float1 "npfloat list"
  | Int2 "int ndarray"
  | Int1 "int list"
  | Labels "'l list"

type_synonym 'l store = "'l cell list"

type_synonym ('l, 'a) prog = "'l store \<Rightarrow> (error + 'a) \<times> 'l store"

definition st_return :: "'a \<Rightarrow> ('l, 'a) prog" where
  "st_return x = (\<lambda>s. (Inr x, s))"

definition st_lift :: "error + 'a \<Rightarrow> ('l, 'a) prog" where
  "st_lift m = (\<lambda>s. (m, s))"

definition st_bind :: "('l, 'a) prog \<Rightarrow> ('a \<Rightarrow> ('l, 'b) prog) \<Rightarrow> ('l, 'b) prog" where
  "st_bind m f = (\<lambda>s. case m s of (Inl e, s') \<Rightarrow> (Inl e, s') | (Inr x, s') \<Rightarrow> f x s')"

definition st_alloc :: "'l cell \<Rightarrow> ('l, nat) prog" where
  "st_alloc c = (\<lambda>s. (Inr (length s), s @ [c]))"

definition st_write :: "nat \<Rightarrow> 'l cell \<Rightarrow> ('l, unit) prog" where
  "st_write a c = (\<lambda>s. (Inr (), s[a := c]))"

text \<open>
  Reading an array of the kind a function works on. A reference to another kind of
  object is outside the documented use of the functions and is a \<^verbatim>\<open>TypeError\<close> here.
\<close>

definition read_float2 :: "nat \<Rightarrow> ('l, npfloat ndarray) prog" where
  "read_float2 a = (\<lambda>s. (case s ! a of Float2 A \<Rightarrow> Inr A | _ \<Rightarrow> Inl TypeError, s))"

definition read_float1 :: "nat \<Rightarrow> ('l, npfloat list) prog" where
  "read_float1 a = (\<lambda>s. (case s ! a of Float1 v \<Rightarrow> Inr v | _ \<Rightarrow> Inl TypeError, s))"

definition read_int2 :: "nat \<Rightarrow> ('l, int ndarray) prog" where
  "read_int2 a = (\<lambda>s. (case s ! a of Int2 A \<Rightarrow> Inr A | _ \<Rightarrow> Inl TypeError, s))"

definition read_labels :: "nat \<Rightarrow> ('l, 'l list) prog" where
  "read_labels a = (\<lambda>s. (case s ! a of Labels g \<Rightarrow> Inr g | _ \<Rightarrow> Inl TypeError, s))"

text \<open>A list comprehension whose body works on the store.\<close>

fun st_list_comp :: "('a \<Rightarrow> ('l, 'b) prog) \<Rightarrow> 'a list \<Rightarrow> ('l, 'b list) prog" where
  "st_list_comp f [] = st_return []"
| "st_list_comp f (x # xs) =
     st_bind (f x) (\<lambda>y. st_bind (st_list_comp f xs) (\<lambda>ys. st_return (y # ys)))"

text \<open>The index assignments, in place: the array at the reference is replaced.\<close>

definition setitem_st :: "nat \<Rightarrow> nat list \<Rightarrow> npfloat \<Rightarrow> ('l, unit) prog" where
  "setitem_st a idx c =
     st_bind (read_float1 a) (\<lambda>v.
     st_bind (st_lift (setitem v idx c)) (\<lambda>v'.
     st_write a (Float1 v')))"

definition setitem_columns_st :: "nat \<Rightarrow> nat list \<Rightarrow> npfloat \<Rightarrow> ('l, unit) prog" where
  "setitem_columns_st a idx c =
     st_bind (read_float2 a) (\<lambda>A.
     st_bind (st_lift (setitem_columns A idx c)) (\<lambda>A'.
     st_write a (Float2 A')))"

definition setitem_2d_st :: "nat \<Rightarrow> (nat \<times> nat) list \<Rightarrow> npfloat \<Rightarrow> ('l, unit) prog" where
  "setitem_2d_st a idx c =
     st_bind (read_float2 a) (\<lambda>A.
     st_bind (st_lift (setitem_2d A idx c)) (\<lambda>A'.
     st_write a (Float2 A')))"

text \<open>
  \<open>zscore\<close>: \<^verbatim>\<open>np.array(X)\<close> copies its argument; the mean, the deviation, the difference and
  the quotient are new arrays; the three index assignments write into \<^verbatim>\<open>avg\<close>, \<^verbatim>\<open>stdev\<close>
  and \<^verbatim>\<open>zarr\<close>.
\<close>

definition zscore_st :: "nat \<Rightarrow> ('l, nat) prog" where
  "zscore_st x =
     st_bind (read_float2 x) (\<lambda>X.
     st_bind (st_alloc (Float2 X)) (\<lambda>arr.
     st_bind (read_float2 arr) (\<lambda>A.
     st_bind (st_alloc (Float1 (mean_axis0 A))) (\<lambda>avg.
     st_bind (st_alloc (Float1 (std_axis0 A))) (\<lambda>stdev.
     st_bind (read_float1 stdev) (\<lambda>sd.
     let zero_items = where_zero sd in
     st_bind (if 0 < length zero_items
              then st_bind (setitem_st avg zero_items (Fin 0)) (\<lambda>_.
                   setitem_st stdev zero_items (Fin 1))
              else st_return ()) (\<lambda>_.
     st_bind (read_float1 avg) (\<lambda>av.
     st_bind (read_float1 stdev) (\<lambda>sd'.
     st_bind (st_lift (broadcast_op np_sub A (atleast_2d av))) (\<lambda>C.
     st_bind (st_alloc (Float2 C)) (\<lambda>centred.
     st_bind (st_lift (broadcast_op np_div C (atleast_2d sd'))) (\<lambda>Z.
     st_bind (st_alloc (Float2 Z)) (\<lambda>zarr.
     st_bind (setitem_columns_st zarr zero_items (Fin 0)) (\<lambda>_.
     st_return zarr))))))))))))))"

text \<open>
  \<open>normalize\<close>: \<^verbatim>\<open>np.array(X)\<close> copies; the norm and the quotient are new arrays; the two
  index assignments write into \<^verbatim>\<open>normal_base\<close> and into the quotient.
\<close>

definition normalize_st :: "nat \<Rightarrow> int \<Rightarrow> ('l, nat) prog" where
  "normalize_st x axis =
     st_bind (read_float2 x) (\<lambda>X.
     st_bind (st_alloc (Float2 X)) (\<lambda>normed.
     st_bind (read_float2 normed) (\<lambda>A.
     st_bind (st_lift (norm_keepdims A axis)) (\<lambda>B.
     st_bind (st_alloc (Float2 B)) (\<lambda>normal_base.
     let zero_items = where_zero_2d B in
     st_bind (setitem_2d_st normal_base zero_items (Fin 1)) (\<lambda>_.
     st_bind (read_float2 normal_base) (\<lambda>B'.
     st_bind (st_lift (broadcast_op np_div A B')) (\<lambda>D.
     st_bind (st_alloc (Float2 D)) (\<lambda>normed'.
     st_bind (setitem_2d_st normed' zero_items (Fin 0)) (\<lambda>_.
     st_return normed'))))))))))"

text \<open>
  \<open>_compute_xcorr\<close>: \<^verbatim>\<open>Ynz.T\<close> is a view that is only read; the product and the quotient
  are new arrays.
\<close>

definition compute_xcorr_st :: "nat \<Rightarrow> nat \<Rightarrow> ('l, nat) prog" where
  "compute_xcorr_st x y =
     st_bind (zscore_st x) (\<lambda>zx.
     st_bind (normalize_st zx 0) (\<lambda>xnz.
     st_bind (zscore_st y) (\<lambda>zy.
     st_bind (normalize_st zy 0) (\<lambda>ynz.
     st_bind (read_float2 ynz) (\<lambda>Ynz.
     st_bind (read_float2 xnz) (\<lambda>Xnz.
     st_bind (st_lift (matmul (transpose_arr Ynz) Xnz)) (\<lambda>P.
     st_bind (st_alloc (Float2 P)) (\<lambda>p.
     st_alloc (Float2 (divide_scalar P (int (shape0 Xnz) - 1)))))))))))"

text \<open>
  \<open>xcorr\<close>: indexing with a boolean mask copies the selected rows; \<^verbatim>\<open>np.row_stack\<close> makes
  a new array.
\<close>

definition xcorr_st :: "nat \<Rightarrow> nat \<Rightarrow> nat option \<Rightarrow> ('l::linorder, nat) prog" where
  "xcorr_st x y grouping =
     (case grouping of
        None \<Rightarrow> compute_xcorr_st x y
      | Some g \<Rightarrow>
          st_bind (read_labels g) (\<lambda>labels.
          st_bind (st_list_comp (\<lambda>grp.
                     st_bind (read_float2 x) (\<lambda>X.
                     st_bind (st_lift (bool_index X (eq_mask labels grp))) (\<lambda>Xg.
                     st_bind (st_alloc (Float2 Xg)) (\<lambda>xg.
                     st_bind (read_float2 y) (\<lambda>Y.
                     st_bind (st_lift (bool_index Y (eq_mask labels grp))) (\<lambda>Yg.
                     st_bind (st_alloc (Float2 Yg)) (\<lambda>yg.
                     compute_xcorr_st xg yg)))))))
                   (unique labels)) (\<lambda>blocks.
          st_bind (st_list_comp read_float2 blocks) (\<lambda>Bs.
          st_bind (st_lift (row_stack Bs)) (\<lambda>R.
          st_alloc (Float2 R))))))"

text \<open>\<open>dummy_code\<close> and \<open>reverse_dummy_code\<close> only make new arrays.\<close>

definition dummy_code_st :: "nat \<Rightarrow> ('l::linorder, nat) prog" where
  "dummy_code_st g =
     st_bind (read_labels g) (\<lambda>grouping.
     st_bind (st_lift (dummy_code grouping)) (\<lambda>Y.
     st_alloc (Int2 Y)))"

definition reverse_dummy_code_st :: "nat \<Rightarrow> ('l, nat) prog" where
  "reverse_dummy_code_st y =
     st_bind (read_int2 y) (\<lambda>Y.
     st_bind (st_lift (reverse_dummy_code Y)) (\<lambda>grouping.
     st_alloc (Int1 grouping)))"

section \<open>Notions used in the statements\<close>

text \<open>The entry that zscore computes for a value x of a column with mean m and deviation s.\<close>

definition zscore_entry :: "npfloat \<Rightarrow> npfloat \<Rightarrow> npfloat \<Rightarrow> npfloat" where
  "zscore_entry m s x = (if s = Fin 0 then Fin 0 else np_div (np_sub x m) s)"

text \<open>The entry that normalize computes from a value \<open>x\<close> of a slice with norm \<open>b\<close>.\<close>

definition normalize_entry :: "npfloat \<Rightarrow> npfloat \<Rightarrow> npfloat" where
  "normalize_entry b x = np_div x (if b = Fin 0 then Fin 1 else b)"

text \<open>
  The block that \<open>compute_xcorr\<close> returns, written entry by entry from the two
  normalised arrays.
\<close>

definition xcorr_block :: "npfloat ndarray \<Rightarrow> npfloat ndarray \<Rightarrow> npfloat ndarray" where
  "xcorr_block Xnz Ynz =
     \<lparr>shape0 = shape1 Ynz, shape1 = shape1 Xnz,
      rows = map (\<lambda>k. map (\<lambda>j.
               np_div (np_sum (map (\<lambda>i. np_mul (rows Ynz ! i ! k) (rows Xnz ! i ! j))
                                   [0..<shape0 Xnz]))
                      (Fin (real_of_int (int (shape0 Xnz) - 1))))
             [0..<shape1 Xnz]) [0..<shape1 Ynz]\<rparr>"

text \<open>
  The rows of \<open>A\<close> that belong to the group with label \<open>l\<close>: the rows whose own entry of
  the grouping vector is \<open>l\<close>, in their order.
\<close>

definition group_rows :: "'a ndarray \<Rightarrow> 'l list \<Rightarrow> 'l \<Rightarrow> 'a ndarray" where
  "group_rows A g l =
     \<lparr>shape0 = count_list g l, shape1 = shape1 A,
      rows = map fst (filter (\<lambda>(r, x). x = l) (zip (rows A) g))\<rparr>"

text \<open>
  \<open>preserves n m Q\<close>: run on a store with at least \<open>n\<close> arrays, the program \<open>m\<close> leaves the
  first \<open>n\<close> arrays as they are and removes nothing, and a result it returns satisfies
  \<open>Q\<close>.
\<close>

definition preserves :: "nat \<Rightarrow> ('l, 'a) prog \<Rightarrow> ('a \<Rightarrow> bool) \<Rightarrow> bool" where
  "preserves n m Q \<longleftrightarrow>
     (\<forall>s. n \<le> length s \<longrightarrow>
        (case m s of (r, s') \<Rightarrow>
           length s \<le> length s' \<and> take n s' = take n s \<and>
           (case r of Inl e \<Rightarrow> True | Inr x \<Rightarrow> Q x)))"

text \<open>
  \<open>computes m s r\<close>: run on the store \<open>s\<close>, the program \<open>m\<close> raises what \<open>r\<close> raises, or
  returns a reference to a new array that holds what \<open>r\<close> returns.
\<close>

definition computes :: "('l, nat) prog \<Rightarrow> 'l store \<Rightarrow> ('a \<Rightarrow> 'l cell) \<Rightarrow> error + 'a \<Rightarrow> bool" where
  "computes m s kind r \<longleftrightarrow>
     (case m s of
        (Inl e, s') \<Rightarrow> r = Inl e
      | (Inr a, s') \<Rightarrow> length s \<le> a \<and> a < length s' \<and> (\<exists>Z. r = Inr Z \<and> s' ! a = kind Z))"

section \<open>Properties of dummy coding\<close>

lemma set_unique: "set (unique g) = set g"
  by (simp add: unique_def)

lemma distinct_unique: "distinct (unique g)"
  by (simp add: unique_def)

lemma sorted_unique: "sorted (unique g)"
  by (simp add: unique_def)

lemma length_unique: "length (unique g) = card (set g)"
  by (simp add: unique_def length_remdups_card_conv)

lemma unique_Nil_iff: "unique g = [] \<longleftrightarrow> g = []"
  by (metis set_unique set_empty)

lemma dummy_code_rows:
  assumes "g \<noteq> []"
  shows "dummy_code g = Inr \<lparr>shape0 = length g, shape1 = length (unique g),
           rows = map (\<lambda>x. map (\<lambda>grp. if x = grp then 1 else 0) (unique g)) g\<rparr>"
proof -
  let ?cols = "map (\<lambda>grp. astype_int (eq_mask g grp)) (unique g)"
  have ne: "?cols \<noteq> []" using assms by (simp add: unique_Nil_iff)
  have len: "\<forall>c \<in> set ?cols. length c = length g"
    by (simp add: astype_int_def eq_mask_def)
  have hd: "length (hd ?cols) = length g"
    using ne len by (metis hd_in_set)
  have rows: "map (\<lambda>i. map (\<lambda>c. c ! i) ?cols) [0..<length g]
      = map (\<lambda>x. map (\<lambda>grp. if x = grp then 1 else 0) (unique g)) g"
    by (rule nth_equalityI) (simp_all add: astype_int_def eq_mask_def)
  show ?thesis
    unfolding dummy_code_def Let_def column_stack_def
    using ne len hd rows by simp
qed

lemma reverse_dummy_code_rows:
  fixes Y :: "'a::semiring_1 ndarray"
  assumes "valid_array Y" "0 < shape1 Y"
  shows "reverse_dummy_code Y =
     Inr (map (\<lambda>r. \<Sum>k<shape1 Y. r ! k * of_nat (Suc k)) (rows Y))"
proof -
  let ?N = "shape0 Y" and ?G = "shape1 Y"
  define B where "B = map (\<lambda>k. atleast_2d (map (\<lambda>x. x * of_nat (Suc k)) (column Y k))) [0..<?G]"
  have blocks: "map (\<lambda>(n, grp). atleast_2d (map (\<lambda>x. x * of_nat n) grp))
                          (enumerate 1 (rows (transpose_arr Y))) = B"
    unfolding B_def
    by (rule nth_equalityI) (simp_all add: transpose_arr_def nth_enumerate_eq)
  have ne: "B \<noteq> []" using assms(2) by (simp add: B_def)
  have sh: "\<forall>A \<in> set B. shape1 A = ?N"
    using assms(1) by (auto simp: B_def atleast_2d_def column_def valid_array_def)
  have hd: "shape1 (hd B) = ?N" using ne sh by (metis hd_in_set)
  have rws: "concat (map rows B) = map (\<lambda>k. map (\<lambda>x. x * of_nat (Suc k)) (column Y k)) [0..<?G]"
    by (simp add: B_def atleast_2d_def comp_def concat_map_singleton)
  have stack: "row_stack B = Inr \<lparr>shape0 = sum_list (map shape0 B), shape1 = ?N,
      rows = map (\<lambda>k. map (\<lambda>x. x * of_nat (Suc k)) (column Y k)) [0..<?G]\<rparr>"
    using ne sh hd rws by (simp add: row_stack_def)
  have len: "length (rows Y) = ?N" using assms(1) by (simp add: valid_array_def)
  have "map (\<lambda>j. sum_list (map (\<lambda>r. r ! j) (map (\<lambda>k. map (\<lambda>x. x * of_nat (Suc k)) (column Y k)) [0..<?G]))) [0..<?N]
      = map (\<lambda>r. \<Sum>k<?G. r ! k * of_nat (Suc k)) (rows Y)"
  proof (rule nth_equalityI)
    show "length (map (\<lambda>j. sum_list (map (\<lambda>r. r ! j) (map (\<lambda>k. map (\<lambda>x. x * of_nat (Suc k)) (column Y k)) [0..<?G]))) [0..<?N])
        = length (map (\<lambda>r. \<Sum>k<?G. r ! k * of_nat (Suc k)) (rows Y))"
      by (simp add: len)
  next
    fix i assume "i < length (map (\<lambda>j. sum_list (map (\<lambda>r. r ! j) (map (\<lambda>k. map (\<lambda>x. x * of_nat (Suc k)) (column Y k)) [0..<?G]))) [0..<?N])"
    then have i: "i < ?N" by simp
    have "map (\<lambda>r. r ! i) (map (\<lambda>k. map (\<lambda>x. x * of_nat (Suc k)) (column Y k)) [0..<?G])
        = map (\<lambda>k. rows Y ! i ! k * of_nat (Suc k)) [0..<?G]"
      using i len by (simp add: column_def)
    then show "map (\<lambda>j. sum_list (map (\<lambda>r. r ! j) (map (\<lambda>k. map (\<lambda>x. x * of_nat (Suc k)) (column Y k)) [0..<?G]))) [0..<?N] ! i
        = map (\<lambda>r. \<Sum>k<?G. r ! k * of_nat (Suc k)) (rows Y) ! i"
      using i len by (simp add: sum_list_sum_nth atLeast0LessThan)
  qed
  then show ?thesis
    unfolding reverse_dummy_code_def blocks stack
    by (simp add: sum_axis0_def column_def)
qed


lemma onehot_row_nth:
  assumes "distinct u" "k < length u" "j < length u"
  shows "(map (\<lambda>grp. if u ! k = grp then 1 else (0::int)) u) ! j = (if j = k then 1 else 0)"
  using assms by (auto simp: nth_eq_iff_index_eq)

lemma onehot_row_sum:
  assumes "distinct u" "x \<in> set u"
  shows "sum_list (map (\<lambda>grp. if x = grp then 1 else (0::int)) u) = 1"
proof -
  obtain k where k: "k < length u" "u ! k = x"
    using assms(2) by (auto simp: in_set_conv_nth)
  have "sum_list (map (\<lambda>grp. if x = grp then 1 else (0::int)) u)
      = (\<Sum>j<length u. (map (\<lambda>grp. if u ! k = grp then 1 else (0::int)) u) ! j)"
    using k by (simp add: sum_list_sum_nth atLeast0LessThan)
  also have "\<dots> = (\<Sum>j<length u. if j = k then 1 else 0)"
    using assms(1) k(1) by (intro sum.cong refl) (simp add: nth_eq_iff_index_eq)
  also have "\<dots> = 1" using k(1) by simp
  finally show ?thesis .
qed

lemma onehot_row_weighted:
  assumes "distinct u" "k < length u"
  shows "(\<Sum>j<length u. (map (\<lambda>grp. if u ! k = grp then 1 else (0::int)) u) ! j * of_nat (Suc j))
     = int (Suc k)"
proof -
  have "(\<Sum>j<length u. (map (\<lambda>grp. if u ! k = grp then 1 else (0::int)) u) ! j * of_nat (Suc j))
      = (\<Sum>j<length u. if j = k then int (Suc j) else 0)"
    using assms by (intro sum.cong refl) (simp add: nth_eq_iff_index_eq)
  also have "\<dots> = int (Suc k)" using assms(2) by simp
  finally show ?thesis .
qed

text \<open>
  Claim C7, amended. For every non-empty grouping vector of length \<open>N\<close> with \<open>G\<close> distinct
  labels, \<open>dummy_code\<close> returns an \<open>N \<times> G\<close> matrix of 0s and 1s whose columns follow
  the ascending order of the distinct labels: entry \<open>(i, k)\<close> is 1 exactly when the label
  of row \<open>i\<close> is the \<open>k\<close>-th smallest distinct label, and every row sums to 1.
\<close>

theorem dummy_code_indicator:
  fixes g :: "'l::linorder list"
  assumes "g \<noteq> []"
  shows "\<exists>Y. dummy_code g = Inr Y \<and> valid_array Y
           \<and> shape0 Y = length g \<and> shape1 Y = card (set g)
           \<and> sorted (unique g) \<and> distinct (unique g) \<and> set (unique g) = set g
           \<and> (\<forall>i<length g. \<forall>k<card (set g).
                 (rows Y ! i ! k = 0 \<or> rows Y ! i ! k = 1)
                 \<and> (rows Y ! i ! k = 1 \<longleftrightarrow> g ! i = unique g ! k))
           \<and> (\<forall>i<length g. sum_list (rows Y ! i) = 1)"
proof -
  let ?Y = "\<lparr>shape0 = length g, shape1 = length (unique g),
           rows = map (\<lambda>x. map (\<lambda>grp. if x = grp then 1 else (0::int)) (unique g)) g\<rparr>"
  have 1: "dummy_code g = Inr ?Y" by (rule dummy_code_rows [OF assms])
  have 2: "valid_array ?Y" by (simp add: valid_array_def)
  have 3: "shape1 ?Y = card (set g)" by (simp add: length_unique)
  have 4: "\<forall>i<length g. \<forall>k<card (set g).
             (rows ?Y ! i ! k = 0 \<or> rows ?Y ! i ! k = 1)
             \<and> (rows ?Y ! i ! k = 1 \<longleftrightarrow> g ! i = unique g ! k)"
    by (simp add: length_unique)
  have 5: "\<forall>i<length g. sum_list (rows ?Y ! i) = 1"
    by (simp add: onehot_row_sum distinct_unique set_unique)
  show ?thesis
    using 1 2 3 4 5 sorted_unique [of g] distinct_unique [of g] set_unique [of g]
    by (intro exI [of _ ?Y]) simp
qed


text \<open>
  The grouping \<open>[0, 0, 1, 2, 1]\<close> of the module's documentation.
\<close>

theorem dummy_code_indicator_witness:
  "[0, 0, 1, 2, 1 :: int] \<noteq> [] \<and>
   (\<exists>Y. dummy_code [0, 0, 1, 2, 1 :: int] = Inr Y \<and> valid_array Y
      \<and> shape0 Y = 5 \<and> shape1 Y = 3 \<and> sum_list (rows Y ! 4) = 1)"
proof -
  have c: "card (set [0, 0, 1, 2, 1 :: int]) = 3" by code_simp
  show ?thesis
    using dummy_code_indicator [of "[0, 0, 1, 2, 1 :: int]"] unfolding c by auto
qed

text \<open>
  Claim C7 as stated covers the empty grouping vector (\<open>N = 0\<close>, \<open>G = 0\<close>). There
  \<^verbatim>\<open>np.unique\<close> is empty, the list of columns is empty, and \<^verbatim>\<open>np.column_stack\<close>
  raises \<^verbatim>\<open>ValueError\<close>: no matrix is returned.
\<close>

theorem dummy_code_empty_raises: "dummy_code ([] :: int list) = Inl ValueError"
  by (simp add: dummy_code_def unique_def column_stack_def)

text \<open>
  Claim C9, amended. For every \<open>N \<times> G\<close> matrix \<open>Y\<close> with at least one column, one-hot or
  not, \<open>reverse_dummy_code Y\<close> returns the vector of length \<open>N\<close> whose \<open>i\<close>-th entry is the
  sum over \<open>n = 1..G\<close> of \<open>n\<close> times \<open>Y[i, n - 1]\<close>.
\<close>

theorem reverse_dummy_code_weighted_sum:
  fixes Y :: "'a::semiring_1 ndarray"
  assumes "valid_array Y" "0 < shape1 Y"
  shows "reverse_dummy_code Y =
     Inr (map (\<lambda>i. \<Sum>n = 1..shape1 Y. of_nat n * (rows Y ! i ! (n - 1))) [0..<shape0 Y])"
proof -
  have len: "length (rows Y) = shape0 Y" using assms(1) by (simp add: valid_array_def)
  have "(\<Sum>k<shape1 Y. r ! k * of_nat (Suc k)) = (\<Sum>n = 1..shape1 Y. of_nat n * (r ! (n - 1)))"
    for r :: "'a list"
  proof -
    have "(\<Sum>n = 1..shape1 Y. of_nat n * (r ! (n - 1))) = (\<Sum>n = Suc 0..<Suc (shape1 Y). of_nat n * (r ! (n - 1)))"
      by (simp add: atLeastLessThanSuc_atLeastAtMost)
    also have "\<dots> = (\<Sum>k = 0..<shape1 Y. of_nat (Suc k) * (r ! k))"
      by (subst sum.shift_bounds_Suc_ivl) simp
    also have "\<dots> = (\<Sum>k<shape1 Y. r ! k * of_nat (Suc k))"
      by (intro sum.cong) (auto simp: atLeast0LessThan mult_of_nat_commute simp del: of_nat_Suc)
    finally show ?thesis by simp
  qed
  then have "map (\<lambda>r. \<Sum>k<shape1 Y. r ! k * of_nat (Suc k)) (rows Y)
      = map (\<lambda>i. \<Sum>n = 1..shape1 Y. of_nat n * (rows Y ! i ! (n - 1))) [0..<shape0 Y]"
    using len by (intro nth_equalityI) simp_all
  then show ?thesis
    using reverse_dummy_code_rows [OF assms] by simp
qed


text \<open>
  An all-zero row yields 0; the row \<open>[1, 0, 1]\<close> yields \<open>1 + 3 = 4\<close>.
\<close>

theorem reverse_dummy_code_weighted_sum_witness:
  "valid_array \<lparr>shape0 = 2, shape1 = 3, rows = [[0, 0, 0], [1, 0, 1 :: int]]\<rparr> \<and>
   reverse_dummy_code \<lparr>shape0 = 2, shape1 = 3, rows = [[0, 0, 0], [1, 0, 1 :: int]]\<rparr>
     = Inr [0, 4]"
proof -
  let ?Y = "\<lparr>shape0 = 2, shape1 = 3, rows = [[0, 0, 0], [1, 0, 1 :: int]]\<rparr>"
  have v: "valid_array ?Y" by (simp add: valid_array_def)
  have u: "[0..<2] = [0, 1]" by code_simp
  have s: "{Suc 0..3} = {Suc 0, 2, 3}" by auto
  show ?thesis
    using v reverse_dummy_code_weighted_sum [of ?Y] by (simp add: u s)
qed

text \<open>
  Claim C9 as stated covers a matrix with no columns (\<open>G = 0\<close>). There the list of
  scaled columns is empty and \<^verbatim>\<open>np.row_stack\<close> raises \<^verbatim>\<open>ValueError\<close>, where the claim
  promises the vector of empty sums.
\<close>

theorem reverse_dummy_code_no_columns_raises:
  "valid_array \<lparr>shape0 = 1, shape1 = 0, rows = [[] :: int list]\<rparr> \<and>
   reverse_dummy_code \<lparr>shape0 = 1, shape1 = 0, rows = [[] :: int list]\<rparr> = Inl ValueError"
  by (simp add: valid_array_def reverse_dummy_code_def transpose_arr_def enumerate_eq_zip
      row_stack_def)

text \<open>
  Claim C6, amended. For every non-empty grouping vector \<open>g\<close>, the round trip
  \<open>reverse_dummy_code (dummy_code g)\<close> returns a vector of the length of \<open>g\<close> whose
  \<open>i\<close>-th entry is the 1-based rank of \<open>g ! i\<close> among the ascending distinct labels of
  \<open>g\<close>; two rows get equal values exactly when their labels are equal.
\<close>

theorem dummy_code_round_trip:
  fixes g :: "'l::linorder list"
  assumes "g \<noteq> []"
  shows "\<exists>Y v. dummy_code g = Inr Y \<and> reverse_dummy_code Y = Inr v
           \<and> length v = length g
           \<and> (\<forall>i<length g. 1 \<le> v ! i \<and> v ! i \<le> int (card (set g))
                 \<and> unique g ! (nat (v ! i) - 1) = g ! i)
           \<and> (\<forall>i<length g. \<forall>j<length g. v ! i = v ! j \<longleftrightarrow> g ! i = g ! j)"
proof -
  let ?u = "unique g"
  let ?Y = "\<lparr>shape0 = length g, shape1 = length ?u,
           rows = map (\<lambda>x. map (\<lambda>grp. if x = grp then 1 else (0::int)) ?u) g\<rparr>"
  let ?v = "map (\<lambda>r. \<Sum>k<length ?u. r ! k * of_nat (Suc k)) (rows ?Y)"
  have 1: "dummy_code g = Inr ?Y" by (rule dummy_code_rows [OF assms])
  have "valid_array ?Y" "0 < shape1 ?Y"
    using assms by (simp_all add: valid_array_def unique_Nil_iff)
  from reverse_dummy_code_rows [OF this]
  have 2: "reverse_dummy_code ?Y = Inr ?v" by simp
  have rank: "\<exists>k<length ?u. ?u ! k = g ! i \<and> ?v ! i = int (Suc k)" if "i < length g" for i
  proof -
    have "g ! i \<in> set ?u" using that by (simp add: set_unique)
    then obtain k where k: "k < length ?u" "?u ! k = g ! i"
      by (auto simp: in_set_conv_nth)
    have "?v ! i = (\<Sum>j<length ?u. (map (\<lambda>grp. if ?u ! k = grp then 1 else (0::int)) ?u) ! j * of_nat (Suc j))"
      using that k by simp
    also have "\<dots> = int (Suc k)"
      by (rule onehot_row_weighted [OF distinct_unique k(1)])
    finally show ?thesis using k by blast
  qed
  have 3: "\<forall>i<length g. 1 \<le> ?v ! i \<and> ?v ! i \<le> int (card (set g))
                 \<and> ?u ! (nat (?v ! i) - 1) = g ! i"
  proof (intro allI impI)
    fix i assume "i < length g"
    from rank [OF this] obtain k where "k < length ?u" "?u ! k = g ! i" "?v ! i = int (Suc k)"
      by blast
    moreover from this have "nat (?v ! i) - 1 = k"
      by (metis nat_int diff_Suc_1)
    ultimately show "1 \<le> ?v ! i \<and> ?v ! i \<le> int (card (set g)) \<and> ?u ! (nat (?v ! i) - 1) = g ! i"
      by (simp add: length_unique [symmetric] del: of_nat_Suc)
  qed
  have 4: "\<forall>i<length g. \<forall>j<length g. ?v ! i = ?v ! j \<longleftrightarrow> g ! i = g ! j"
  proof (intro allI impI)
    fix i j assume "i < length g" "j < length g"
    from rank [OF this(1)] obtain k where k: "k < length ?u" "?u ! k = g ! i" "?v ! i = int (Suc k)"
      by blast
    from rank [OF \<open>j < length g\<close>] obtain l where l: "l < length ?u" "?u ! l = g ! j" "?v ! j = int (Suc l)"
      by blast
    have "k = l \<longleftrightarrow> ?u ! k = ?u ! l"
      using k(1) l(1) distinct_unique [of g] by (simp add: nth_eq_iff_index_eq)
    then show "?v ! i = ?v ! j \<longleftrightarrow> g ! i = g ! j"
      using k l by simp
  qed
  have 5: "length ?v = length g" by simp
  show ?thesis
    using 1 2 3 4 5 by blast
qed

lemma dummy_code_example:
  "dummy_code [5, 3, 5 :: int]
     = Inr \<lparr>shape0 = 3, shape1 = 2, rows = [[0, 1], [1, 0], [0, 1]]\<rparr>"
  by code_simp

lemma reverse_dummy_code_example:
  "reverse_dummy_code \<lparr>shape0 = 3, shape1 = 2, rows = [[0, 1], [1, 0], [0, 1 :: int]]\<rparr>
     = Inr [2, 1, 2]"
  by code_simp

text \<open>
  The labels \<open>[5, 3, 5]\<close> come back as the ranks \<open>[2, 1, 2]\<close>.
\<close>

theorem dummy_code_round_trip_witness:
  "[5, 3, 5 :: int] \<noteq> [] \<and>
   (\<exists>Y. dummy_code [5, 3, 5 :: int] = Inr Y \<and> reverse_dummy_code Y = Inr [2, 1, 2])"
proof -
  from dummy_code_round_trip [of "[5, 3, 5 :: int]"]
  obtain Y v where "dummy_code [5, 3, 5 :: int] = Inr Y" "reverse_dummy_code Y = Inr v"
    by auto
  then show ?thesis
    using dummy_code_example reverse_dummy_code_example by auto
qed

text \<open>
  Claim C6 as stated covers the empty grouping vector. There \<open>dummy_code\<close> raises
  \<^verbatim>\<open>ValueError\<close>, so the round trip returns no vector.
\<close>

theorem dummy_code_round_trip_empty_raises:
  "\<not> (\<exists>Y v. dummy_code ([] :: int list) = Inr Y \<and> reverse_dummy_code Y = Inr v)"
  by (simp add: dummy_code_def unique_def column_stack_def)

section \<open>Properties of \<open>zscore\<close>\<close>

lemma length_fold_update: "length (fold (\<lambda>i w. w[i := c]) idx v) = length v"
  by (induction idx arbitrary: v) simp_all

lemma nth_fold_update:
  "i < length v \<Longrightarrow> fold (\<lambda>i w. w[i := c]) idx v ! i = (if i \<in> set idx then c else v ! i)"
  by (induction idx arbitrary: v) (auto simp: length_fold_update nth_list_update)

lemma fold_update_eq_map:
  "fold (\<lambda>i w. w[i := c]) idx v = map (\<lambda>i. if i \<in> set idx then c else v ! i) [0..<length v]"
  by (rule nth_equalityI) (simp_all add: length_fold_update nth_fold_update)

lemma set_where_zero: "set (where_zero v) = {j. j < length v \<and> v ! j = Fin 0}"
  by (auto simp: where_zero_def)

lemma setitem_where_zero:
  "length w = length v \<Longrightarrow>
   setitem w (where_zero v) c = Inr (map (\<lambda>j. if v ! j = Fin 0 then c else w ! j) [0..<length v])"
  by (auto simp: setitem_def set_where_zero fold_update_eq_map)

lemma broadcast_dim_one [simp]: "broadcast_dim n (Suc 0) = Some n"
  by (simp add: broadcast_dim_def)

lemma broadcast_dim_same [simp]: "broadcast_dim n n = Some n"
  by (simp add: broadcast_dim_def)

lemma broadcast_op_row:
  assumes "valid_array A" "length v = shape1 A"
  shows "broadcast_op f A (atleast_2d v) =
     Inr \<lparr>shape0 = shape0 A, shape1 = shape1 A,
          rows = map (\<lambda>r. map (\<lambda>j. f (r ! j) (v ! j)) [0..<shape1 A]) (rows A)\<rparr>"
proof -
  have len: "length (rows A) = shape0 A" using assms(1) by (simp add: valid_array_def)
  have "map (\<lambda>i. map (\<lambda>j. f (rows A ! (if shape0 A = 1 then 0 else i) ! (if shape1 A = 1 then 0 else j))
                          ([v] ! 0 ! (if length v = 1 then 0 else j))) [0..<shape1 A]) [0..<shape0 A]
      = map (\<lambda>r. map (\<lambda>j. f (r ! j) (v ! j)) [0..<shape1 A]) (rows A)"
    using len assms(2) by (intro nth_equalityI) auto
  then show ?thesis
    using assms(2) by (simp add: broadcast_op_def atleast_2d_def)
qed

lemma setitem_columns_where_zero:
  assumes "valid_array A" "length v = shape1 A"
  shows "setitem_columns A (where_zero v) c =
     Inr (A\<lparr>rows := map (\<lambda>r. map (\<lambda>j. if v ! j = Fin 0 then c else r ! j) [0..<shape1 A]) (rows A)\<rparr>)"
proof -
  have "map (\<lambda>r. fold (\<lambda>j w. w[j := c]) (where_zero v) r) (rows A)
      = map (\<lambda>r. map (\<lambda>j. if v ! j = Fin 0 then c else r ! j) [0..<shape1 A]) (rows A)"
    using assms by (intro map_cong refl) (auto simp: fold_update_eq_map set_where_zero valid_array_def)
  then show ?thesis
    using assms(2) by (simp add: setitem_columns_def set_where_zero)
qed

lemma zscore_rows:
  assumes "valid_array X"
  shows "zscore X =
     Inr \<lparr>shape0 = shape0 X, shape1 = shape1 X,
          rows = map (\<lambda>r. map (\<lambda>j. zscore_entry (np_mean (column X j)) (np_std (column X j)) (r ! j))
                              [0..<shape1 X]) (rows X)\<rparr>"
proof -
  let ?J = "shape1 X"
  let ?avg = "mean_axis0 X" and ?sd = "std_axis0 X"
  let ?z = "where_zero ?sd"
  define avg' where "avg' = map (\<lambda>j. if ?sd ! j = Fin 0 then Fin 0 else ?avg ! j) [0..<?J]"
  define sd' where "sd' = map (\<lambda>j. if ?sd ! j = Fin 0 then Fin 1 else ?sd ! j) [0..<?J]"
  have la: "length ?avg = ?J" and ls: "length ?sd = ?J"
    by (simp_all add: mean_axis0_def std_axis0_def)
  have la': "length avg' = ?J" and ls': "length sd' = ?J"
    by (simp_all add: avg'_def sd'_def)
  have s1: "setitem ?avg ?z (Fin 0) = Inr avg'"
    using setitem_where_zero [of ?avg ?sd "Fin 0"] la ls by (simp add: avg'_def)
  have s2: "setitem ?sd ?z (Fin 1) = Inr sd'"
    using setitem_where_zero [of ?sd ?sd "Fin 1"] ls by (simp add: sd'_def)
  have nochange: "avg' = ?avg \<and> sd' = ?sd" if "?z = []"
  proof -
    have "\<forall>j<?J. ?sd ! j \<noteq> Fin 0"
      using that set_where_zero [of ?sd] ls by auto
    then show ?thesis
      using la ls by (auto intro!: nth_equalityI simp: avg'_def sd'_def)
  qed
  have step1: "(if 0 < length ?z
            then bind_err (setitem ?avg ?z (Fin 0)) (\<lambda>avg'.
                 bind_err (setitem ?sd ?z (Fin 1)) (\<lambda>stdev'.
                 Inr (avg', stdev')))
            else Inr (?avg, ?sd)) = Inr (avg', sd')"
    using nochange by (simp add: s1 s2 bind_err_def)
  define C where "C = \<lparr>shape0 = shape0 X, shape1 = ?J,
          rows = map (\<lambda>r. map (\<lambda>j. np_sub (r ! j) (avg' ! j)) [0..<?J]) (rows X)\<rparr>"
  have step2: "broadcast_op np_sub X (atleast_2d avg') = Inr C"
    using broadcast_op_row [OF assms, of avg' np_sub] la' by (simp add: C_def)
  have vC: "valid_array C" "shape1 C = ?J" "shape0 C = shape0 X"
    using assms by (simp_all add: valid_array_def C_def)
  define Z where "Z = \<lparr>shape0 = shape0 X, shape1 = ?J,
          rows = map (\<lambda>r. map (\<lambda>j. np_div (r ! j) (sd' ! j)) [0..<?J]) (rows C)\<rparr>"
  have step3: "broadcast_op np_div C (atleast_2d sd') = Inr Z"
    using broadcast_op_row [OF vC(1), of sd' np_div] ls' vC by (simp add: Z_def)
  have vZ: "valid_array Z" "shape1 Z = ?J"
    using assms by (simp_all add: valid_array_def Z_def C_def)
  define R where "R = Z\<lparr>rows := map (\<lambda>r. map (\<lambda>j. if ?sd ! j = Fin 0 then Fin 0 else r ! j) [0..<?J]) (rows Z)\<rparr>"
  have step4: "setitem_columns Z ?z (Fin 0) = Inr R"
    using setitem_columns_where_zero [OF vZ(1), of ?sd "Fin 0"] ls vZ(2) by (simp add: R_def)
  have final: "R = \<lparr>shape0 = shape0 X, shape1 = ?J,
          rows = map (\<lambda>r. map (\<lambda>j. zscore_entry (np_mean (column X j)) (np_std (column X j)) (r ! j))
                              [0..<?J]) (rows X)\<rparr>"
    by (auto simp: R_def Z_def C_def avg'_def sd'_def zscore_entry_def mean_axis0_def std_axis0_def)
  have "zscore X = Inr R"
    unfolding zscore_def Let_def step1
    by (simp add: bind_err_def step2 step3 step4)
  then show ?thesis by (simp only: final)
qed

section \<open>Properties of \<open>normalize_arr\<close>\<close>

lemma np_norm_Nil [simp]: "np_norm [] = Fin 0"
  by (simp add: np_norm_def np_sum_def)

lemma fold_update_row0:
  "rs \<noteq> [] \<Longrightarrow>
   fold (\<lambda>(i, j) rs. rs[i := (rs ! i)[j := c]]) (map (\<lambda>j. (0, j)) zs) rs
     = rs[0 := fold (\<lambda>j w. w[j := c]) zs (rs ! 0)]"
proof (induction zs arbitrary: rs)
  case Nil
  then show ?case by simp
next
  case (Cons z zs)
  have "rs[0 := (rs ! 0)[z := c]] \<noteq> []" using Cons.prems by simp
  from Cons.IH [OF this] Cons.prems show ?case
    by (cases rs) simp_all
qed

lemma normalize_axis0:
  assumes "valid_array A"
  shows "normalize_arr A 0 =
     (if shape0 A = 0 \<and> 0 < shape1 A then Inl IndexError
      else Inr \<lparr>shape0 = shape0 A, shape1 = shape1 A,
            rows = map (\<lambda>i. map (\<lambda>j. if i = 0 \<and> np_norm (column A j) = Fin 0 then Fin 0
                                       else normalize_entry (np_norm (column A j)) (rows A ! i ! j))
                                [0..<shape1 A]) [0..<shape0 A]\<rparr>)"
proof -
  let ?N = "shape0 A" and ?J = "shape1 A"
  define nb where "nb = map (\<lambda>j. np_norm (column A j)) [0..<?J]"
  define zs where "zs = filter (\<lambda>j. nb ! j = Fin 0) [0..<?J]"
  define nb' where "nb' = map (\<lambda>j. if nb ! j = Fin 0 then Fin 1 else nb ! j) [0..<?J]"
  have lnb: "length nb = ?J" "length nb' = ?J" by (simp_all add: nb_def nb'_def)
  have setzs: "set zs = {j. j < ?J \<and> nb ! j = Fin 0}" by (auto simp: zs_def)
  have len: "length (rows A) = ?N" and rowlen: "\<And>r. r \<in> set (rows A) \<Longrightarrow> length r = ?J"
    using assms by (simp_all add: valid_array_def)
  have step1: "norm_keepdims A 0 = Inr (atleast_2d nb)"
    by (simp add: norm_keepdims_def atleast_2d_def nb_def)
  have step2: "where_zero_2d (atleast_2d nb) = map (\<lambda>j. (0, j)) zs"
    by (simp add: where_zero_2d_def atleast_2d_def zs_def lnb)
  have step3: "setitem_2d (atleast_2d nb) (map (\<lambda>j. (0, j)) zs) (Fin 1) = Inr (atleast_2d nb')"
  proof -
    have "fold (\<lambda>j w. w[j := Fin 1]) zs nb = nb'"
      by (simp add: fold_update_eq_map setzs lnb nb'_def)
    then show ?thesis
      by (auto simp: setitem_2d_def atleast_2d_def fold_update_row0 setzs lnb)
  qed
  define D where "D = \<lparr>shape0 = ?N, shape1 = ?J,
          rows = map (\<lambda>r. map (\<lambda>j. np_div (r ! j) (nb' ! j)) [0..<?J]) (rows A)\<rparr>"
  have step4: "broadcast_op np_div A (atleast_2d nb') = Inr D"
    using broadcast_op_row [OF assms, of nb' np_div] lnb by (simp add: D_def)
  have shD: "shape0 D = ?N" "shape1 D = ?J" "length (rows D) = ?N"
    by (simp_all add: D_def len)
  show ?thesis
  proof (cases "?N = 0 \<and> 0 < ?J")
    case True
    then have "rows A = []" using len by simp
    then have "nb ! 0 = Fin 0" using True by (simp add: nb_def column_def)
    then have "0 \<in> set zs" using True by (simp add: setzs)
    then have "setitem_2d D (map (\<lambda>j. (0, j)) zs) (Fin 0) = Inl IndexError"
      using True by (auto simp: setitem_2d_def shD)
    then show ?thesis
      unfolding normalize_arr_def Let_def
      using True by (simp add: bind_err_def step1 step2 step3 step4)
  next
    case False
    have ok: "\<forall>(i, j) \<in> set (map (\<lambda>j. (0, j)) zs). i < shape0 D \<and> j < shape1 D"
    proof (cases "?N = 0")
      case True
      then have "?J = 0" using False by simp
      then show ?thesis by (simp add: setzs)
    next
      case False
      then show ?thesis by (auto simp: setzs shD)
    qed
    have "fold (\<lambda>(i, j) rs. rs[i := (rs ! i)[j := Fin 0]]) (map (\<lambda>j. (0, j)) zs) (rows D)
       = map (\<lambda>i. map (\<lambda>j. if i = 0 \<and> np_norm (column A j) = Fin 0 then Fin 0
                                       else normalize_entry (np_norm (column A j)) (rows A ! i ! j))
                                [0..<?J]) [0..<?N]"
    proof (cases "?N = 0")
      case True
      then have "rows D = []" using shD by simp
      moreover have "zs = []" using True False setzs by auto
      ultimately show ?thesis using True by simp
    next
      case N: False
      then have ne: "rows D \<noteq> []" using shD by auto
      have r0: "length (rows D ! 0) = ?J" using N len by (simp add: D_def)
      show ?thesis
        unfolding fold_update_row0 [OF ne] fold_update_eq_map r0
        using N len
        by (intro nth_equalityI)
          (auto simp: shD nth_list_update setzs D_def nb'_def nb_def normalize_entry_def)
    qed
    then have "setitem_2d D (map (\<lambda>j. (0, j)) zs) (Fin 0) =
        Inr \<lparr>shape0 = ?N, shape1 = ?J,
            rows = map (\<lambda>i. map (\<lambda>j. if i = 0 \<and> np_norm (column A j) = Fin 0 then Fin 0
                                       else normalize_entry (np_norm (column A j)) (rows A ! i ! j))
                                [0..<?J]) [0..<?N]\<rparr>"
      using ok by (simp add: setitem_2d_def D_def)
    then show ?thesis
      unfolding normalize_arr_def Let_def
      using False by (simp add: bind_err_def step1 step2 step3 step4)
  qed
qed

section \<open>\<open>normalize_arr\<close> along axis 1, and the empty axis\<close>

lemma length_fold_update_col0:
  "length (fold (\<lambda>(i, j) rs. rs[i := (rs ! i)[j := c]]) (map (\<lambda>i. (i, 0)) zs) rs) = length rs"
  by (induction zs arbitrary: rs) simp_all

lemma nth_fold_update_col0:
  assumes "i < length rs"
  shows "fold (\<lambda>(i, j) rs. rs[i := (rs ! i)[j := c]]) (map (\<lambda>i. (i, 0)) zs) rs ! i
       = (if i \<in> set zs then (rs ! i)[0 := c] else rs ! i)"
  using assms
proof (induction zs arbitrary: rs)
  case Nil
  then show ?case by simp
next
  case (Cons z zs)
  let ?rs' = "rs[z := (rs ! z)[0 := c]]"
  have "i < length ?rs'" using Cons.prems by simp
  from Cons.IH [OF this] Cons.prems show ?case
    by (cases "i = z") simp_all
qed

lemma concat_map_filter:
  assumes "\<forall>x \<in> set xs. f x = (if P x then [g x] else [])"
  shows "concat (map f xs) = map g (filter P xs)"
  using assms by (induction xs) simp_all

lemma broadcast_op_col:
  assumes "valid_array A" "length v = shape0 A"
  shows "broadcast_op f A \<lparr>shape0 = shape0 A, shape1 = 1, rows = map (\<lambda>x. [x]) v\<rparr> =
     Inr \<lparr>shape0 = shape0 A, shape1 = shape1 A,
          rows = map (\<lambda>i. map (\<lambda>j. f (rows A ! i ! j) (v ! i)) [0..<shape1 A]) [0..<shape0 A]\<rparr>"
proof -
  have "map (\<lambda>i. map (\<lambda>j. f (rows A ! (if shape0 A = 1 then 0 else i) ! (if shape1 A = 1 then 0 else j))
                          (map (\<lambda>x. [x]) v ! (if shape0 A = 1 then 0 else i) ! 0)) [0..<shape1 A]) [0..<shape0 A]
      = map (\<lambda>i. map (\<lambda>j. f (rows A ! i ! j) (v ! i)) [0..<shape1 A]) [0..<shape0 A]"
    using assms(2) by (intro nth_equalityI) auto
  then show ?thesis
    by (simp add: broadcast_op_def)
qed

lemma normalize_axis1:
  assumes "valid_array A"
  shows "normalize_arr A 1 =
     (if shape1 A = 0 \<and> 0 < shape0 A then Inl IndexError
      else Inr \<lparr>shape0 = shape0 A, shape1 = shape1 A,
            rows = map (\<lambda>i. map (\<lambda>j. if j = 0 \<and> np_norm (rows A ! i) = Fin 0 then Fin 0
                                       else normalize_entry (np_norm (rows A ! i)) (rows A ! i ! j))
                                [0..<shape1 A]) [0..<shape0 A]\<rparr>)"
proof -
  let ?N = "shape0 A" and ?J = "shape1 A"
  define nb where "nb = map np_norm (rows A)"
  define zs where "zs = filter (\<lambda>i. nb ! i = Fin 0) [0..<?N]"
  define nb' where "nb' = map (\<lambda>i. if nb ! i = Fin 0 then Fin 1 else nb ! i) [0..<?N]"
  have len: "length (rows A) = ?N" and rowlen: "\<And>r. r \<in> set (rows A) \<Longrightarrow> length r = ?J"
    using assms by (simp_all add: valid_array_def)
  have lnb: "length nb = ?N" "length nb' = ?N" by (simp_all add: nb_def nb'_def len)
  have setzs: "set zs = {i. i < ?N \<and> nb ! i = Fin 0}" by (auto simp: zs_def)
  define B where "B = \<lparr>shape0 = ?N, shape1 = 1, rows = map (\<lambda>x. [x]) nb\<rparr>"
  define B' where "B' = \<lparr>shape0 = ?N, shape1 = 1, rows = map (\<lambda>x. [x]) nb'\<rparr>"
  have step1: "norm_keepdims A 1 = Inr B"
    by (simp add: norm_keepdims_def nb_def comp_def B_def)
  have step2: "where_zero_2d B = map (\<lambda>i. (i, 0)) zs"
  proof -
    have "\<forall>i \<in> set [0..<?N].
        map (\<lambda>j. (i, j)) (filter (\<lambda>j. map (\<lambda>x. [x]) nb ! i ! j = Fin 0) [0..<Suc 0])
          = (if nb ! i = Fin 0 then [(i, 0)] else [])"
      using lnb by auto
    from concat_map_filter [OF this] show ?thesis
      by (simp add: where_zero_2d_def zs_def B_def)
  qed
  have step3: "setitem_2d B (map (\<lambda>i. (i, 0)) zs) (Fin 1) = Inr B'"
  proof -
    have "fold (\<lambda>(i, j) rs. rs[i := (rs ! i)[j := Fin 1]]) (map (\<lambda>i. (i, 0)) zs) (map (\<lambda>x. [x]) nb)
        = map (\<lambda>x. [x]) nb'"
      using lnb
      by (intro nth_equalityI)
        (auto simp: length_fold_update_col0 nth_fold_update_col0 setzs nb'_def)
    then show ?thesis
      by (auto simp: setitem_2d_def setzs B_def B'_def)
  qed
  define D where "D = \<lparr>shape0 = ?N, shape1 = ?J,
          rows = map (\<lambda>i. map (\<lambda>j. np_div (rows A ! i ! j) (nb' ! i)) [0..<?J]) [0..<?N]\<rparr>"
  have step4: "broadcast_op np_div A B' = Inr D"
    using broadcast_op_col [OF assms, of nb' np_div] lnb by (simp add: D_def B'_def)
  have shD: "shape0 D = ?N" "shape1 D = ?J" "length (rows D) = ?N"
    by (simp_all add: D_def)
  show ?thesis
  proof (cases "?J = 0 \<and> 0 < ?N")
    case True
    then have "rows A ! 0 = []" using len rowlen [of "rows A ! 0"] by simp
    then have "nb ! 0 = Fin 0" using True len by (simp add: nb_def)
    then have "0 \<in> set zs" using True by (simp add: setzs)
    then have "setitem_2d D (map (\<lambda>i. (i, 0)) zs) (Fin 0) = Inl IndexError"
      using True by (auto simp: setitem_2d_def shD)
    then show ?thesis
      unfolding normalize_arr_def Let_def
      using True by (simp add: bind_err_def step1 step2 step3 step4)
  next
    case False
    have ok: "\<forall>(i, j) \<in> set (map (\<lambda>i. (i, 0)) zs). i < shape0 D \<and> j < shape1 D"
      using False by (auto simp: setzs shD)
    have "fold (\<lambda>(i, j) rs. rs[i := (rs ! i)[j := Fin 0]]) (map (\<lambda>i. (i, 0)) zs) (rows D)
       = map (\<lambda>i. map (\<lambda>j. if j = 0 \<and> np_norm (rows A ! i) = Fin 0 then Fin 0
                                       else normalize_entry (np_norm (rows A ! i)) (rows A ! i ! j))
                                [0..<?J]) [0..<?N]"
    proof (rule nth_equalityI)
      show "length (fold (\<lambda>(i, j) rs. rs[i := (rs ! i)[j := Fin 0]]) (map (\<lambda>i. (i, 0)) zs) (rows D))
          = length (map (\<lambda>i. map (\<lambda>j. if j = 0 \<and> np_norm (rows A ! i) = Fin 0 then Fin 0
                                       else normalize_entry (np_norm (rows A ! i)) (rows A ! i ! j))
                                [0..<?J]) [0..<?N])"
        by (simp add: length_fold_update_col0 shD)
    next
      fix i assume "i < length (fold (\<lambda>(i, j) rs. rs[i := (rs ! i)[j := Fin 0]]) (map (\<lambda>i. (i, 0)) zs) (rows D))"
      then have i: "i < ?N" by (simp add: length_fold_update_col0 shD)
      have nbi: "nb ! i = np_norm (rows A ! i)" using i len by (simp add: nb_def)
      have "(if i \<in> set zs then (rows D ! i)[0 := Fin 0] else rows D ! i)
          = map (\<lambda>j. if j = 0 \<and> np_norm (rows A ! i) = Fin 0 then Fin 0
                                       else normalize_entry (np_norm (rows A ! i)) (rows A ! i ! j))
                                [0..<?J]"
        using i nbi
        by (intro nth_equalityI)
          (auto simp: setzs D_def nb'_def normalize_entry_def nth_list_update)
      then show "fold (\<lambda>(i, j) rs. rs[i := (rs ! i)[j := Fin 0]]) (map (\<lambda>i. (i, 0)) zs) (rows D) ! i
          = map (\<lambda>i. map (\<lambda>j. if j = 0 \<and> np_norm (rows A ! i) = Fin 0 then Fin 0
                                       else normalize_entry (np_norm (rows A ! i)) (rows A ! i ! j))
                                [0..<?J]) [0..<?N] ! i"
        using i by (simp add: nth_fold_update_col0 shD)
    qed
    then have "setitem_2d D (map (\<lambda>i. (i, 0)) zs) (Fin 0) =
        Inr \<lparr>shape0 = ?N, shape1 = ?J,
            rows = map (\<lambda>i. map (\<lambda>j. if j = 0 \<and> np_norm (rows A ! i) = Fin 0 then Fin 0
                                       else normalize_entry (np_norm (rows A ! i)) (rows A ! i ! j))
                                [0..<?J]) [0..<?N]\<rparr>"
      using ok by (simp add: setitem_2d_def D_def)
    then show ?thesis
      unfolding normalize_arr_def Let_def
      using False by (simp add: bind_err_def step1 step2 step3 step4)
  qed
qed

text \<open>
  Claim C4 promises that \<open>normalize\<close> raises nothing and re-sets every slice of norm zero
  to zeros. By \<open>normalize_axis0\<close> and \<open>normalize_axis1\<close> the last assignment, \<^verbatim>\<open>normed[zero_items] = 0\<close>,
  re-sets only position 0 of such a slice: \<^verbatim>\<open>zero_items\<close> holds positions of
  \<^verbatim>\<open>normal_base\<close>, whose shape is \<open>(1, J)\<close> or \<open>(N, 1)\<close>. An array with no rows and one
  column has one (empty) column of norm 0, so the assignment addresses row 0 of an array
  without rows and the call fails with \<^verbatim>\<open>IndexError\<close>; the same happens along axis 1 for
  one row and no columns. (\<open>zscore\<close> re-sets whole columns, \<^verbatim>\<open>zarr[:, zero_items] = 0\<close>, and
  does not fail there.)
\<close>

theorem normalize_arr_empty_axis_raises:
  "normalize_arr \<lparr>shape0 = 0, shape1 = 1, rows = []\<rparr> 0 = Inl IndexError \<and>
   normalize_arr \<lparr>shape0 = 1, shape1 = 0, rows = [[]]\<rparr> 1 = Inl IndexError"
proof -
  let ?A = "\<lparr>shape0 = 0, shape1 = 1, rows = [] :: npfloat list list\<rparr>"
  let ?B = "\<lparr>shape0 = 1, shape1 = 0, rows = [[] :: npfloat list]\<rparr>"
  have v: "valid_array ?A" "valid_array ?B" by (simp_all add: valid_array_def)
  have "normalize_arr ?A 0 = Inl IndexError"
    unfolding normalize_axis0 [OF v(1)] by simp
  moreover have "normalize_arr ?B 1 = Inl IndexError"
    unfolding normalize_axis1 [OF v(2)] by simp
  ultimately show ?thesis by simp
qed

section \<open>Properties of \<open>compute_xcorr\<close>\<close>

lemma zscore_shape:
  assumes "valid_array X"
  shows "\<exists>Z. zscore X = Inr Z \<and> valid_array Z \<and> shape0 Z = shape0 X \<and> shape1 Z = shape1 X"
  using assms by (simp add: zscore_rows valid_array_def)

lemma normalize_axis0_shape:
  assumes "valid_array A" "normalize_arr A 0 = Inr R"
  shows "valid_array R \<and> shape0 R = shape0 A \<and> shape1 R = shape1 A"
  using assms(2) unfolding normalize_axis0 [OF assms(1)]
  by (auto simp: valid_array_def split: if_splits)

lemma normalize_axis0_raises_iff:
  assumes "valid_array A"
  shows "normalize_arr A 0 = Inl IndexError \<longleftrightarrow> shape0 A = 0 \<and> 0 < shape1 A"
    and "isl (normalize_arr A 0) \<longleftrightarrow> shape0 A = 0 \<and> 0 < shape1 A"
  unfolding normalize_axis0 [OF assms] by auto

lemma matmul_transpose:
  assumes "valid_array A" "valid_array B" "shape0 A = shape0 B"
  shows "matmul (transpose_arr A) B =
     Inr \<lparr>shape0 = shape1 A, shape1 = shape1 B,
          rows = map (\<lambda>k. map (\<lambda>j. np_sum (map (\<lambda>i. np_mul (rows A ! i ! k) (rows B ! i ! j))
                                               [0..<shape0 B]))
                              [0..<shape1 B]) [0..<shape1 A]\<rparr>"
proof -
  have lenA: "length (rows A) = shape0 B" and lenB: "length (rows B) = shape0 B"
    using assms by (simp_all add: valid_array_def)
  have "map2 np_mul (column A k) (column B j)
      = map (\<lambda>i. np_mul (rows A ! i ! k) (rows B ! i ! j)) [0..<shape0 B]" for k j
    using lenA lenB by (intro nth_equalityI) (simp_all add: column_def)
  then show ?thesis
    using assms(3) by (simp add: matmul_def transpose_arr_def)
qed

lemma matmul_transpose_mismatch:
  assumes "shape0 A \<noteq> shape0 B"
  shows "matmul (transpose_arr A) B = Inl ValueError"
  using assms by (simp add: matmul_def transpose_arr_def)

lemma compute_xcorr_cases:
  assumes "valid_array X" "valid_array Y"
  shows "compute_xcorr X Y =
     (if shape0 X = 0 \<and> 0 < shape1 X then Inl IndexError
      else if shape0 Y = 0 \<and> 0 < shape1 Y then Inl IndexError
      else if shape0 Y \<noteq> shape0 X then Inl ValueError
      else Inr (xcorr_block (projr (normalize_arr (projr (zscore X)) 0))
                            (projr (normalize_arr (projr (zscore Y)) 0))))"
proof -
  from zscore_shape [OF assms(1)] obtain Zx where
    Zx: "zscore X = Inr Zx" "valid_array Zx" "shape0 Zx = shape0 X" "shape1 Zx = shape1 X"
    by blast
  from zscore_shape [OF assms(2)] obtain Zy where
    Zy: "zscore Y = Inr Zy" "valid_array Zy" "shape0 Zy = shape0 Y" "shape1 Zy = shape1 Y"
    by blast
  show ?thesis
  proof (cases "shape0 X = 0 \<and> 0 < shape1 X")
    case True
    then have "normalize_arr Zx 0 = Inl IndexError"
      using normalize_axis0_raises_iff(1) [OF Zx(2)] Zx by simp
    then show ?thesis using True by (simp add: compute_xcorr_def bind_err_def Zx)
  next
    case nX: False
    then have "\<not> isl (normalize_arr Zx 0)"
      using normalize_axis0_raises_iff(2) [OF Zx(2)] Zx by simp
    then obtain Xnz where Xnz: "normalize_arr Zx 0 = Inr Xnz" by (cases "normalize_arr Zx 0") auto
    from normalize_axis0_shape [OF Zx(2) this]
    have Xs: "valid_array Xnz" "shape0 Xnz = shape0 X" "shape1 Xnz = shape1 X"
      using Zx by simp_all
    show ?thesis
    proof (cases "shape0 Y = 0 \<and> 0 < shape1 Y")
      case True
      then have "normalize_arr Zy 0 = Inl IndexError"
        using normalize_axis0_raises_iff(1) [OF Zy(2)] Zy by simp
      then show ?thesis using True nX by (simp add: compute_xcorr_def bind_err_def Zx Zy Xnz)
    next
      case nY: False
      then have "\<not> isl (normalize_arr Zy 0)"
        using normalize_axis0_raises_iff(2) [OF Zy(2)] Zy by simp
      then obtain Ynz where Ynz: "normalize_arr Zy 0 = Inr Ynz" by (cases "normalize_arr Zy 0") auto
      from normalize_axis0_shape [OF Zy(2) this]
      have Ys: "valid_array Ynz" "shape0 Ynz = shape0 Y" "shape1 Ynz = shape1 Y"
        using Zy by simp_all
      show ?thesis
      proof (cases "shape0 Y = shape0 X")
        case False
        then have "matmul (transpose_arr Ynz) Xnz = Inl ValueError"
          using matmul_transpose_mismatch [of Ynz Xnz] Xs Ys by simp
        then show ?thesis
          using False nX nY by (simp add: compute_xcorr_def bind_err_def Zx Zy Xnz Ynz)
      next
        case True
        then have "shape0 Ynz = shape0 Xnz" using Xs Ys by simp
        from matmul_transpose [OF Ys(1) Xs(1) this]
        show ?thesis
          using True nX nY
          by (simp add: compute_xcorr_def bind_err_def Zx Zy Xnz Ynz divide_scalar_def
              xcorr_block_def comp_def)
      qed
    qed
  qed
qed

text \<open>
  Claim C2. For every \<open>N \<times> J\<close> array \<open>X\<close> and \<open>N \<times> K\<close> array \<open>Y\<close> with \<open>N \<ge> 2\<close>, no step of
  \<open>compute_xcorr X Y\<close> raises, and the result is the \<open>K \<times> J\<close> array whose entry \<open>(k, j)\<close> is
  the product of column \<open>k\<close> of \<open>normalize(zscore(Y))\<close> with column \<open>j\<close> of
  \<open>normalize(zscore(X))\<close>, divided by \<open>N - 1\<close>.
\<close>

theorem compute_xcorr_formula:
  assumes "valid_array X" "valid_array Y" "shape0 Y = shape0 X" "2 \<le> shape0 X"
  shows "\<exists>Zx Xnz Zy Ynz R.
      zscore X = Inr Zx \<and> normalize_arr Zx 0 = Inr Xnz
    \<and> zscore Y = Inr Zy \<and> normalize_arr Zy 0 = Inr Ynz
    \<and> compute_xcorr X Y = Inr R
    \<and> valid_array R \<and> shape0 R = shape1 Y \<and> shape1 R = shape1 X
    \<and> (\<forall>k<shape1 Y. \<forall>j<shape1 X.
          rows R ! k ! j =
            np_div (np_sum (map (\<lambda>i. np_mul (rows Ynz ! i ! k) (rows Xnz ! i ! j)) [0..<shape0 X]))
                   (Fin (real (shape0 X) - 1)))"
proof -
  from zscore_shape [OF assms(1)] obtain Zx where
    Zx: "zscore X = Inr Zx" "valid_array Zx" "shape0 Zx = shape0 X" "shape1 Zx = shape1 X"
    by blast
  from zscore_shape [OF assms(2)] obtain Zy where
    Zy: "zscore Y = Inr Zy" "valid_array Zy" "shape0 Zy = shape0 Y" "shape1 Zy = shape1 Y"
    by blast
  have "\<not> isl (normalize_arr Zx 0)"
    using normalize_axis0_raises_iff(2) [OF Zx(2)] Zx assms(4) by simp
  then obtain Xnz where Xnz: "normalize_arr Zx 0 = Inr Xnz" by (cases "normalize_arr Zx 0") auto
  from normalize_axis0_shape [OF Zx(2) this]
  have Xs: "valid_array Xnz" "shape0 Xnz = shape0 X" "shape1 Xnz = shape1 X"
    using Zx by simp_all
  have "\<not> isl (normalize_arr Zy 0)"
    using normalize_axis0_raises_iff(2) [OF Zy(2)] Zy assms(3,4) by simp
  then obtain Ynz where Ynz: "normalize_arr Zy 0 = Inr Ynz" by (cases "normalize_arr Zy 0") auto
  from normalize_axis0_shape [OF Zy(2) this]
  have Ys: "valid_array Ynz" "shape0 Ynz = shape0 Y" "shape1 Ynz = shape1 Y"
    using Zy by simp_all
  let ?R = "xcorr_block Xnz Ynz"
  have R: "compute_xcorr X Y = Inr ?R"
    using compute_xcorr_cases [OF assms(1,2)] assms(3,4) by (simp add: Zx Zy Xnz Ynz)
  have vR: "valid_array ?R" "shape0 ?R = shape1 Y" "shape1 ?R = shape1 X"
    using Xs Ys by (simp_all add: xcorr_block_def valid_array_def)
  have "real_of_int (int (shape0 X) - 1) = real (shape0 X) - 1" by simp
  then have ent: "\<forall>k<shape1 Y. \<forall>j<shape1 X.
          rows ?R ! k ! j =
            np_div (np_sum (map (\<lambda>i. np_mul (rows Ynz ! i ! k) (rows Xnz ! i ! j)) [0..<shape0 X]))
                   (Fin (real (shape0 X) - 1))"
    using Xs Ys by (simp add: xcorr_block_def)
  show ?thesis
    using Zx(1) Xnz Zy(1) Ynz R vR ent by blast
qed

text \<open>
  Two rows, one column against two columns.
\<close>

theorem compute_xcorr_formula_witness:
  "valid_array \<lparr>shape0 = 2, shape1 = 1, rows = [[Fin 1], [Fin 3]]\<rparr> \<and>
   valid_array \<lparr>shape0 = 2, shape1 = 2, rows = [[Fin 2, Fin 0], [Fin 4, Fin 5]]\<rparr> \<and>
   (\<exists>R. compute_xcorr \<lparr>shape0 = 2, shape1 = 1, rows = [[Fin 1], [Fin 3]]\<rparr>
                       \<lparr>shape0 = 2, shape1 = 2, rows = [[Fin 2, Fin 0], [Fin 4, Fin 5]]\<rparr> = Inr R
        \<and> valid_array R \<and> shape0 R = 2 \<and> shape1 R = 1)"
proof -
  let ?X = "\<lparr>shape0 = 2, shape1 = 1, rows = [[Fin 1], [Fin 3]]\<rparr>"
  let ?Y = "\<lparr>shape0 = 2, shape1 = 2, rows = [[Fin 2, Fin 0], [Fin 4, Fin 5]]\<rparr>"
  have v: "valid_array ?X" "valid_array ?Y" by (simp_all add: valid_array_def)
  from compute_xcorr_formula [OF v] show ?thesis using v by auto
qed

section \<open>Properties of \<open>xcorr\<close>\<close>

lemma length_filter_eq_mask: "length (filter id (eq_mask g l)) = count_list g l"
  by (induction g) (simp_all add: eq_mask_def)

lemma bool_index_group:
  assumes "shape0 A = length g"
  shows "bool_index A (eq_mask g l) = Inr (group_rows A g l)"
proof -
  have "filter snd (zip (rows A) (map (\<lambda>x. x = l) g))
      = map (\<lambda>(r, x). (r, x = l)) (filter (\<lambda>(r, x). x = l) (zip (rows A) g))"
    by (simp add: zip_map2 filter_map comp_def case_prod_unfold)
  then have "map fst (filter snd (zip (rows A) (eq_mask g l)))
      = map fst (filter (\<lambda>(r, x). x = l) (zip (rows A) g))"
    by (simp add: eq_mask_def comp_def case_prod_unfold)
  then show ?thesis
    using assms length_filter_eq_mask [of g l]
    by (simp add: bool_index_def group_rows_def eq_mask_def)
qed

lemma bool_index_mismatch:
  assumes "shape0 A \<noteq> length g"
  shows "bool_index A (eq_mask g l) = Inl IndexError"
  using assms by (simp add: bool_index_def eq_mask_def)

lemma valid_group_rows:
  assumes "valid_array A" "shape0 A = length g"
  shows "valid_array (group_rows A g l)"
proof -
  have "length (filter (\<lambda>(r, x). x = l) (zip (rows A) g)) = count_list g l"
    using assms unfolding valid_array_def
  proof (induction g arbitrary: A)
    case Nil
    then show ?case by simp
  next
    case (Cons x g)
    then obtain r rs where rs: "rows A = r # rs" by (cases "rows A") auto
    let ?A' = "A\<lparr>shape0 := length g, rows := rs\<rparr>"
    have "length (filter (\<lambda>(r, x). x = l) (zip (rows ?A') g)) = count_list g l"
      using Cons.prems rs by (intro Cons.IH) auto
    then show ?case using rs by simp
  qed
  moreover have "\<forall>r \<in> set (map fst (filter (\<lambda>(r, x). x = l) (zip (rows A) g))). length r = shape1 A"
    using assms(1) by (auto simp: valid_array_def dest: set_zip_leftD)
  ultimately show ?thesis by (simp add: valid_array_def group_rows_def)
qed

lemma list_comp_all_ok:
  assumes "\<forall>x \<in> set xs. f x = Inr (h x)"
  shows "list_comp f xs = Inr (map h xs)"
  using assms by (induction xs) simp_all

lemma list_comp_first_fails:
  assumes "f x = Inl e"
  shows "list_comp f (x # xs) = Inl e"
  using assms by simp

lemma take_drop_concat_block:
  assumes "\<forall>B \<in> set Bs. length (rows B) = K" "n < length Bs"
  shows "take K (drop (n * K) (concat (map rows Bs))) = rows (Bs ! n)"
  using assms
proof (induction Bs arbitrary: n)
  case Nil
  then show ?case by simp
next
  case (Cons B Bs)
  show ?case
  proof (cases n)
    case 0
    then show ?thesis using Cons.prems by simp
  next
    case (Suc m)
    then show ?thesis using Cons.prems Cons.IH [of m] by simp
  qed
qed

text \<open>The block of one group, and the grouped call in terms of the blocks.\<close>

lemma xcorr_group_step:
  assumes "valid_array X" "valid_array Y" "shape0 X = length g" "shape0 Y = length g"
  shows "bind_err (bool_index X (eq_mask g l)) (\<lambda>Xg.
         bind_err (bool_index Y (eq_mask g l)) (\<lambda>Yg. compute_xcorr Xg Yg))
       = compute_xcorr (group_rows X g l) (group_rows Y g l)"
  using assms by (simp add: bool_index_group bind_err_def)

lemma compute_xcorr_group_ok:
  assumes "valid_array X" "valid_array Y" "shape0 X = length g" "shape0 Y = length g"
    and "1 \<le> count_list g l"
  shows "\<exists>B. compute_xcorr (group_rows X g l) (group_rows Y g l) = Inr B
           \<and> valid_array B \<and> shape0 B = shape1 Y \<and> shape1 B = shape1 X"
proof -
  let ?Xg = "group_rows X g l" and ?Yg = "group_rows Y g l"
  have v: "valid_array ?Xg" "valid_array ?Yg"
    using assms by (simp_all add: valid_group_rows)
  have sh: "shape0 ?Xg = count_list g l" "shape0 ?Yg = count_list g l"
    "shape1 ?Xg = shape1 X" "shape1 ?Yg = shape1 Y"
    by (simp_all add: group_rows_def)
  from zscore_shape [OF v(1)] obtain Zx where
    Zx: "zscore ?Xg = Inr Zx" "valid_array Zx" "shape0 Zx = shape0 ?Xg" "shape1 Zx = shape1 ?Xg"
    by blast
  from zscore_shape [OF v(2)] obtain Zy where
    Zy: "zscore ?Yg = Inr Zy" "valid_array Zy" "shape0 Zy = shape0 ?Yg" "shape1 Zy = shape1 ?Yg"
    by blast
  have "\<not> isl (normalize_arr Zx 0)"
    using normalize_axis0_raises_iff(2) [OF Zx(2)] Zx sh assms(5) by simp
  then obtain Xnz where Xnz: "normalize_arr Zx 0 = Inr Xnz" by (cases "normalize_arr Zx 0") auto
  from normalize_axis0_shape [OF Zx(2) this]
  have Xs: "shape1 Xnz = shape1 X" using Zx sh by simp
  have "\<not> isl (normalize_arr Zy 0)"
    using normalize_axis0_raises_iff(2) [OF Zy(2)] Zy sh assms(5) by simp
  then obtain Ynz where Ynz: "normalize_arr Zy 0 = Inr Ynz" by (cases "normalize_arr Zy 0") auto
  from normalize_axis0_shape [OF Zy(2) this]
  have Ys: "shape1 Ynz = shape1 Y" using Zy sh by simp
  have "compute_xcorr ?Xg ?Yg = Inr (xcorr_block Xnz Ynz)"
    using compute_xcorr_cases [OF v] sh assms(5) by (simp add: Zx Zy Xnz Ynz)
  moreover have "valid_array (xcorr_block Xnz Ynz)"
    "shape0 (xcorr_block Xnz Ynz) = shape1 Y" "shape1 (xcorr_block Xnz Ynz) = shape1 X"
    using Xs Ys by (simp_all add: xcorr_block_def valid_array_def)
  ultimately show ?thesis by blast
qed

lemma sum_list_map_const:
  assumes "\<forall>x \<in> set xs. f x = (c::nat)"
  shows "sum_list (map f xs) = c * length xs"
  using assms by (induction xs) simp_all

lemma row_stack_blocks:
  assumes "Bs \<noteq> []" "\<forall>B \<in> set Bs. valid_array B \<and> shape0 B = K \<and> shape1 B = J"
  shows "\<exists>R. row_stack Bs = Inr R \<and> valid_array R \<and> shape0 R = K * length Bs \<and> shape1 R = J
           \<and> rows R = concat (map rows Bs)"
proof -
  have hd: "shape1 (hd Bs) = J" using assms by (metis hd_in_set)
  have s: "sum_list (map shape0 Bs) = K * length Bs"
    using assms(2) by (intro sum_list_map_const) simp
  have l: "length (concat (map rows Bs)) = K * length Bs"
  proof -
    have "sum_list (map (\<lambda>B. length (rows B)) Bs) = K * length Bs"
      using assms(2) by (intro sum_list_map_const) (simp add: valid_array_def)
    then show ?thesis by (simp add: length_concat comp_def)
  qed
  have r: "\<forall>r \<in> set (concat (map rows Bs)). length r = J"
    using assms(2) by (auto simp: valid_array_def)
  show ?thesis
    using assms hd s l r by (simp add: row_stack_def valid_array_def)
qed

text \<open>
  Claim C5, amended. For \<open>X\<close> (\<open>N \<times> J\<close>), \<open>Y\<close> (\<open>N \<times> K\<close>) and a non-empty grouping vector of
  length \<open>N\<close> with \<open>G\<close> distinct labels, each on at least two rows, \<open>xcorr\<close> returns a
  \<open>(K * G) \<times> J\<close> array whose \<open>n\<close>-th block of \<open>K\<close> rows is \<open>compute_xcorr\<close> of exactly the rows
  of \<open>X\<close> and \<open>Y\<close> labelled with the \<open>n\<close>-th smallest distinct label; without a grouping
  vector \<open>xcorr\<close> is \<open>compute_xcorr\<close>.
\<close>

theorem xcorr_grouped_stack:
  fixes g :: "'l::linorder list"
  assumes "valid_array X" "valid_array Y" "shape0 X = length g" "shape0 Y = length g"
    and "g \<noteq> []" and "\<forall>l \<in> set g. 2 \<le> count_list g l"
  shows "\<exists>R. xcorr X Y (Some g) = Inr R \<and> valid_array R
           \<and> shape0 R = shape1 Y * card (set g) \<and> shape1 R = shape1 X
           \<and> sorted (unique g) \<and> distinct (unique g) \<and> set (unique g) = set g
           \<and> (\<forall>n<card (set g). \<exists>B.
                 compute_xcorr (group_rows X g (unique g ! n)) (group_rows Y g (unique g ! n)) = Inr B
               \<and> shape0 B = shape1 Y \<and> shape1 B = shape1 X
               \<and> take (shape1 Y) (drop (n * shape1 Y) (rows R)) = rows B)
           \<and> xcorr X Y (None :: 'l list option) = compute_xcorr X Y"
proof -
  let ?u = "unique g"
  let ?f = "\<lambda>grp. bind_err (bool_index X (eq_mask g grp)) (\<lambda>Xg.
               bind_err (bool_index Y (eq_mask g grp)) (\<lambda>Yg. compute_xcorr Xg Yg))"
  let ?c = "\<lambda>l. compute_xcorr (group_rows X g l) (group_rows Y g l)"
  let ?h = "\<lambda>l. projr (?c l)"
  have blk: "?c l = Inr (?h l) \<and> valid_array (?h l) \<and> shape0 (?h l) = shape1 Y \<and> shape1 (?h l) = shape1 X"
    if "l \<in> set g" for l
  proof -
    have "1 \<le> count_list g l" using assms(6) that by force
    from compute_xcorr_group_ok [OF assms(1-4) this] show ?thesis by auto
  qed
  have "\<forall>l \<in> set ?u. ?f l = Inr (?h l)"
    using blk xcorr_group_step [OF assms(1-4)] by (simp add: set_unique)
  then have lc: "list_comp ?f ?u = Inr (map ?h ?u)" by (rule list_comp_all_ok)
  have ne: "map ?h ?u \<noteq> []" using assms(5) by (simp add: unique_Nil_iff)
  have all: "\<forall>B \<in> set (map ?h ?u). valid_array B \<and> shape0 B = shape1 Y \<and> shape1 B = shape1 X"
    using blk by (simp add: set_unique)
  from row_stack_blocks [OF ne all] obtain R where
    R: "row_stack (map ?h ?u) = Inr R" "valid_array R" "shape0 R = shape1 Y * length (map ?h ?u)"
      "shape1 R = shape1 X" "rows R = concat (map rows (map ?h ?u))"
    by blast
  have x: "xcorr X Y (Some g) = Inr R"
    unfolding xcorr_def option.case lc by (simp add: bind_err_def R(1))
  have sh: "shape0 R = shape1 Y * card (set g)"
    using R(3) by (simp add: length_unique)
  have blocks: "\<forall>n<card (set g). \<exists>B.
                 ?c (?u ! n) = Inr B
               \<and> shape0 B = shape1 Y \<and> shape1 B = shape1 X
               \<and> take (shape1 Y) (drop (n * shape1 Y) (rows R)) = rows B"
  proof (intro allI impI)
    fix n assume n: "n < card (set g)"
    then have n': "n < length (map ?h ?u)" by (simp add: length_unique)
    then have mem: "?u ! n \<in> set g" using set_unique [of g] by (metis length_map nth_mem)
    have len: "\<forall>B \<in> set (map ?h ?u). length (rows B) = shape1 Y"
      using all by (auto simp: valid_array_def)
    have "take (shape1 Y) (drop (n * shape1 Y) (rows R)) = rows (map ?h ?u ! n)"
      unfolding R(5) by (rule take_drop_concat_block [OF len n'])
    also have "\<dots> = rows (?h (?u ! n))" using n' by simp
    finally show "\<exists>B. ?c (?u ! n) = Inr B
               \<and> shape0 B = shape1 Y \<and> shape1 B = shape1 X
               \<and> take (shape1 Y) (drop (n * shape1 Y) (rows R)) = rows B"
      using blk [OF mem] by blast
  qed
  have none: "xcorr X Y (None :: 'l list option) = compute_xcorr X Y"
    by (simp add: xcorr_def)
  show ?thesis
    using x R(2) sh R(4) sorted_unique [of g] distinct_unique [of g] set_unique [of g] blocks none
    by blast
qed

text \<open>
  Claim C1, amended. A call of \<open>xcorr\<close> fails, with the \<^verbatim>\<open>ValueError\<close> or \<^verbatim>\<open>IndexError\<close>
  of NumPy's shape checks, whenever the row counts of \<open>X\<close>, \<open>Y\<close> and the grouping vector are
  not all equal. (Nothing is promised for a group of one row.)
\<close>

theorem xcorr_row_count_mismatch:
  fixes g :: "'l::linorder list"
  assumes "valid_array X" "valid_array Y"
  shows "(shape0 X \<noteq> shape0 Y \<longrightarrow>
            xcorr X Y (None :: 'l list option) \<in> {Inl ValueError, Inl IndexError})
       \<and> (\<not> (shape0 X = length g \<and> shape0 Y = length g) \<longrightarrow>
            xcorr X Y (Some g) \<in> {Inl ValueError, Inl IndexError})"
proof (intro conjI impI)
  assume "shape0 X \<noteq> shape0 Y"
  then show "xcorr X Y (None :: 'l list option) \<in> {Inl ValueError, Inl IndexError}"
    using compute_xcorr_cases [OF assms] by (auto simp: xcorr_def)
next
  assume mis: "\<not> (shape0 X = length g \<and> shape0 Y = length g)"
  let ?f = "\<lambda>grp. bind_err (bool_index X (eq_mask g grp)) (\<lambda>Xg.
               bind_err (bool_index Y (eq_mask g grp)) (\<lambda>Yg. compute_xcorr Xg Yg))"
  show "xcorr X Y (Some g) \<in> {Inl ValueError, Inl IndexError}"
  proof (cases "unique g")
    case Nil
    then show ?thesis by (simp add: xcorr_def bind_err_def row_stack_def)
  next
    case (Cons l ls)
    have "?f l = Inl IndexError"
    proof (cases "shape0 X = length g")
      case False
      then show ?thesis by (simp add: bool_index_mismatch bind_err_def)
    next
      case True
      then have "shape0 Y \<noteq> length g" using mis by simp
      then show ?thesis using True
        by (simp add: bool_index_group bool_index_mismatch bind_err_def)
    qed
    then have "list_comp ?f (l # ls) = Inl IndexError" by simp
    then show ?thesis unfolding xcorr_def option.case Cons by (simp add: bind_err_def)
  qed
qed

text \<open>
  A group of a single row. Its column has standard deviation 0, so \<open>zscore\<close> and
  \<open>normalize_arr\<close> return zeros, the product is 0, and the division by \<open>N - 1 = 0\<close> gives
  \<open>NaN\<close> with a warning: no exception.
\<close>

lemma zscore_single_row:
  "zscore \<lparr>shape0 = 1, shape1 = 1, rows = [[Fin 1]]\<rparr>
     = Inr \<lparr>shape0 = 1, shape1 = 1, rows = [[Fin 0]]\<rparr>"
  by (simp add: zscore_rows valid_array_def zscore_entry_def column_def np_std_def np_mean_def
      np_sum_def np_sub_def)

lemma normalize_single_zero:
  "normalize_arr \<lparr>shape0 = 1, shape1 = 1, rows = [[Fin 0]]\<rparr> 0
     = Inr \<lparr>shape0 = 1, shape1 = 1, rows = [[Fin 0]]\<rparr>"
  by (simp add: normalize_axis0 valid_array_def column_def np_norm_def np_sum_def)

lemma compute_xcorr_single_row:
  "compute_xcorr \<lparr>shape0 = 1, shape1 = 1, rows = [[Fin 1]]\<rparr>
                 \<lparr>shape0 = 1, shape1 = 1, rows = [[Fin 1]]\<rparr>
     = Inr \<lparr>shape0 = 1, shape1 = 1, rows = [[NaN]]\<rparr>"
  unfolding compute_xcorr_def zscore_single_row normalize_single_zero bind_err_def sum.case
  by (simp add: matmul_def transpose_arr_def column_def divide_scalar_def np_sum_def
      inf_of_sign_def)

text \<open>
  Claim C1 as stated promises a failure when a group has at most one row. The call below
  has one group of one row and returns normally.
\<close>

theorem xcorr_single_row_group_returns:
  "xcorr \<lparr>shape0 = 1, shape1 = 1, rows = [[Fin 1]]\<rparr> \<lparr>shape0 = 1, shape1 = 1, rows = [[Fin 1]]\<rparr>
         (Some [0 :: int])
     = Inr \<lparr>shape0 = 1, shape1 = 1, rows = [[NaN]]\<rparr>"
proof -
  let ?X = "\<lparr>shape0 = 1, shape1 = 1, rows = [[Fin 1]]\<rparr>"
  have g: "group_rows ?X [0 :: int] 0 = ?X" by (simp add: group_rows_def)
  have u: "unique [0 :: int] = [0]" by (simp add: unique_def)
  show ?thesis
    unfolding xcorr_def option.case u
    by (simp add: bool_index_group g [unfolded One_nat_def] bind_err_def
        compute_xcorr_single_row [unfolded One_nat_def] row_stack_def)
qed

text \<open>
  Two rows against three rows, without a grouping vector and with one of length 2.
\<close>

theorem xcorr_row_count_mismatch_witness:
  "valid_array \<lparr>shape0 = 2, shape1 = 1, rows = [[Fin 1], [Fin 3]]\<rparr> \<and>
   valid_array \<lparr>shape0 = 3, shape1 = 1, rows = [[Fin 2], [Fin 4], [Fin 5]]\<rparr> \<and>
   xcorr \<lparr>shape0 = 2, shape1 = 1, rows = [[Fin 1], [Fin 3]]\<rparr>
         \<lparr>shape0 = 3, shape1 = 1, rows = [[Fin 2], [Fin 4], [Fin 5]]\<rparr> (None :: int list option)
     \<in> {Inl ValueError, Inl IndexError} \<and>
   xcorr \<lparr>shape0 = 2, shape1 = 1, rows = [[Fin 1], [Fin 3]]\<rparr>
         \<lparr>shape0 = 3, shape1 = 1, rows = [[Fin 2], [Fin 4], [Fin 5]]\<rparr> (Some [0, 0 :: int])
     \<in> {Inl ValueError, Inl IndexError}"
proof -
  let ?X = "\<lparr>shape0 = 2, shape1 = 1, rows = [[Fin 1], [Fin 3]]\<rparr>"
  let ?Y = "\<lparr>shape0 = 3, shape1 = 1, rows = [[Fin 2], [Fin 4], [Fin 5]]\<rparr>"
  have v: "valid_array ?X" "valid_array ?Y" by (simp_all add: valid_array_def)
  from xcorr_row_count_mismatch [OF v, of "[0, 0 :: int]"] show ?thesis using v by simp
qed

text \<open>
  Four rows in the two groups 3 and 7.
\<close>

theorem xcorr_grouped_stack_witness:
  "valid_array \<lparr>shape0 = 4, shape1 = 1, rows = [[Fin 1], [Fin 2], [Fin 3], [Fin 5]]\<rparr> \<and>
   valid_array \<lparr>shape0 = 4, shape1 = 2, rows = [[Fin 2, Fin 0], [Fin 4, Fin 1], [Fin 5, Fin 1], [Fin 7, Fin 0]]\<rparr> \<and>
   (\<exists>R. xcorr \<lparr>shape0 = 4, shape1 = 1, rows = [[Fin 1], [Fin 2], [Fin 3], [Fin 5]]\<rparr>
               \<lparr>shape0 = 4, shape1 = 2, rows = [[Fin 2, Fin 0], [Fin 4, Fin 1], [Fin 5, Fin 1], [Fin 7, Fin 0]]\<rparr>
               (Some [7, 3, 7, 3 :: int]) = Inr R
        \<and> valid_array R \<and> shape0 R = 4 \<and> shape1 R = 1)"
proof -
  let ?X = "\<lparr>shape0 = 4, shape1 = 1, rows = [[Fin 1], [Fin 2], [Fin 3], [Fin 5]]\<rparr>"
  let ?Y = "\<lparr>shape0 = 4, shape1 = 2, rows = [[Fin 2, Fin 0], [Fin 4, Fin 1], [Fin 5, Fin 1], [Fin 7, Fin 0]]\<rparr>"
  let ?g = "[7, 3, 7, 3 :: int]"
  have v: "valid_array ?X" "valid_array ?Y" by (simp_all add: valid_array_def)
  have s: "shape0 ?X = length ?g" "shape0 ?Y = length ?g" "?g \<noteq> []" by simp_all
  have c: "\<forall>l \<in> set ?g. 2 \<le> count_list ?g l" by simp
  have k: "card (set ?g) = 2" by code_simp
  from xcorr_grouped_stack [OF v s c] show ?thesis using v unfolding k by auto
qed

text \<open>
  Claim C5 as stated covers \<open>N = 0\<close> with the empty grouping vector (\<open>G = 0\<close>, no group
  with fewer than two rows). There the list of blocks is empty and \<^verbatim>\<open>np.row_stack\<close> raises
  \<^verbatim>\<open>ValueError\<close>, where the claim promises a \<open>0 \<times> J\<close> array.
\<close>

theorem xcorr_empty_grouping_raises:
  "valid_array \<lparr>shape0 = 0, shape1 = 1, rows = [] :: npfloat list list\<rparr> \<and>
   xcorr \<lparr>shape0 = 0, shape1 = 1, rows = []\<rparr> \<lparr>shape0 = 0, shape1 = 1, rows = []\<rparr>
         (Some ([] :: int list)) = Inl ValueError"
  by (simp add: valid_array_def xcorr_def unique_def bind_err_def row_stack_def)

section \<open>Properties of \<open>get_seed\<close>\<close>

text \<open>
  Claim C8, amended. For an integer seed from 0 to \<open>2 ^ 32 - 1\<close> (and for a \<^verbatim>\<open>bool\<close>, read
  as 0 or 1) \<open>get_seed\<close> returns a new generator built from that seed and leaves the
  existing ones as they are; for an existing generator it returns that same instance and
  changes nothing; for \<^verbatim>\<open>None\<close> and every other argument it returns the shared
  \<^verbatim>\<open>np.random\<close>.
\<close>

theorem get_seed_resolves:
  "(0 \<le> n \<and> n < 2 ^ 32 \<longrightarrow>
      get_seed h (PyInt n) = (Inr (Instance (length h)), h @ [\<lparr>seeded_with = n, draws = 0\<rparr>]))
   \<and> get_seed h (PyBool b)
        = (Inr (Instance (length h)), h @ [\<lparr>seeded_with = (if b then 1 else 0), draws = 0\<rparr>])
   \<and> get_seed h (PyRandomState a) = (Inr (Instance a), h)
   \<and> get_seed h PyNone = (Inr NpRandomModule, h)
   \<and> get_seed h (PyFloat x) = (Inr NpRandomModule, h)
   \<and> get_seed h (PyStr s) = (Inr NpRandomModule, h)
   \<and> get_seed h PyOther = (Inr NpRandomModule, h)"
  by (simp add: get_seed_def RandomState_def)

text \<open>
  Seed 42 on a heap that holds one generator, and that generator itself as argument.
\<close>

theorem get_seed_resolves_witness:
  "(0::int) \<le> 42 \<and> (42::int) < 2 ^ 32 \<and>
   get_seed [\<lparr>seeded_with = 7, draws = 3\<rparr>] (PyInt 42)
     = (Inr (Instance 1), [\<lparr>seeded_with = 7, draws = 3\<rparr>, \<lparr>seeded_with = 42, draws = 0\<rparr>]) \<and>
   get_seed [\<lparr>seeded_with = 7, draws = 3\<rparr>] (PyRandomState 0)
     = (Inr (Instance 0), [\<lparr>seeded_with = 7, draws = 3\<rparr>])"
  using get_seed_resolves [of 42 "[\<lparr>seeded_with = 7, draws = 3\<rparr>]" True 0 0 "''''"] by simp

text \<open>
  Claim C8 as stated promises a new generator for every integer seed and no exception.
  For the seeds \<open>-1\<close> and \<open>2 ^ 32\<close> the constructor raises \<^verbatim>\<open>ValueError\<close>, and \<open>get_seed\<close>
  does not catch it.
\<close>

theorem get_seed_negative_raises:
  "get_seed [] (PyInt (- 1)) = (Inl ValueError, []) \<and>
   get_seed [] (PyInt (2 ^ 32)) = (Inl ValueError, [])"
  by (simp add: get_seed_def RandomState_def)

section \<open>The store: what the functions compute and what they leave alone\<close>

lemma preserves_return: "Q x \<Longrightarrow> preserves n (st_return x) Q"
  by (simp add: preserves_def st_return_def)

lemma preserves_lift: "preserves n (st_lift m) (\<lambda>x. True)"
  by (simp add: preserves_def st_lift_def split: sum.splits)

lemma preserves_alloc: "preserves n (st_alloc c) (\<lambda>a. n \<le> a)"
  by (simp add: preserves_def st_alloc_def)

lemma preserves_write: "n \<le> a \<Longrightarrow> preserves n (st_write a c) (\<lambda>x. True)"
  by (simp add: preserves_def st_write_def)

lemma preserves_read_float2: "preserves n (read_float2 a) (\<lambda>x. True)"
  by (simp add: preserves_def read_float2_def split: sum.splits)

lemma preserves_read_float1: "preserves n (read_float1 a) (\<lambda>x. True)"
  by (simp add: preserves_def read_float1_def split: sum.splits)

lemma preserves_read_int2: "preserves n (read_int2 a) (\<lambda>x. True)"
  by (simp add: preserves_def read_int2_def split: sum.splits)

lemma preserves_read_labels: "preserves n (read_labels a) (\<lambda>x. True)"
  by (simp add: preserves_def read_labels_def split: sum.splits)

lemma preserves_bind:
  assumes "preserves n m Q" and "\<And>x. Q x \<Longrightarrow> preserves n (f x) R"
  shows "preserves n (st_bind m f) R"
  unfolding preserves_def
proof (intro allI impI)
  fix s :: "'a store" assume n: "n \<le> length s"
  obtain r s1 where m: "m s = (r, s1)" by (cases "m s")
  from assms(1) n m have 1: "length s \<le> length s1" "take n s1 = take n s"
    "case r of Inl e \<Rightarrow> True | Inr x \<Rightarrow> Q x"
    by (auto simp: preserves_def)
  show "case st_bind m f s of (r, s') \<Rightarrow>
           length s \<le> length s' \<and> take n s' = take n s \<and>
           (case r of Inl e \<Rightarrow> True | Inr x \<Rightarrow> R x)"
  proof (cases r)
    case (Inl e)
    then show ?thesis using m 1 by (simp add: st_bind_def)
  next
    case (Inr x)
    then have "Q x" using 1(3) by simp
    from assms(2) [OF this] have "preserves n (f x) R" .
    moreover have "n \<le> length s1" using n 1(1) by simp
    ultimately have "case f x s1 of (r, s') \<Rightarrow>
           length s1 \<le> length s' \<and> take n s' = take n s1 \<and>
           (case r of Inl e \<Rightarrow> True | Inr x \<Rightarrow> R x)"
      by (simp add: preserves_def)
    then show ?thesis using m Inr 1 by (auto simp: st_bind_def)
  qed
qed


lemma preserves_list_comp:
  assumes "\<And>x. preserves n (f x) Q"
  shows "preserves n (st_list_comp f xs) (\<lambda>ys. \<forall>y \<in> set ys. Q y)"
proof (induction xs)
  case Nil
  then show ?case by (simp add: preserves_return)
next
  case (Cons x xs)
  show ?case
    unfolding st_list_comp.simps
    by (intro preserves_bind [OF assms] preserves_bind [OF Cons.IH] preserves_return) simp
qed

lemma preserves_setitem_st: "n \<le> a \<Longrightarrow> preserves n (setitem_st a idx c) (\<lambda>x. True)"
  unfolding setitem_st_def
  by (intro preserves_bind [OF preserves_read_float1] preserves_bind [OF preserves_lift]
      preserves_write)

lemma preserves_setitem_columns_st:
  "n \<le> a \<Longrightarrow> preserves n (setitem_columns_st a idx c) (\<lambda>x. True)"
  unfolding setitem_columns_st_def
  by (intro preserves_bind [OF preserves_read_float2] preserves_bind [OF preserves_lift]
      preserves_write)

lemma preserves_setitem_2d_st:
  "n \<le> a \<Longrightarrow> preserves n (setitem_2d_st a idx c) (\<lambda>x. True)"
  unfolding setitem_2d_st_def
  by (intro preserves_bind [OF preserves_read_float2] preserves_bind [OF preserves_lift]
      preserves_write)

lemma preserves_if:
  assumes "preserves n a Q" "preserves n b Q"
  shows "preserves n (if c then a else b) Q"
  using assms by simp

lemma preserves_unit: "preserves n (st_return ()) (\<lambda>x. True)"
  by (simp add: preserves_return)

lemmas frame_rules =
  preserves_bind preserves_if preserves_unit preserves_alloc preserves_lift
  preserves_read_float2 preserves_read_float1 preserves_read_int2 preserves_read_labels
  preserves_setitem_st preserves_setitem_columns_st preserves_setitem_2d_st
  preserves_return

lemma preserves_zscore_st: "preserves n (zscore_st x) (\<lambda>a. n \<le> a)"
  unfolding zscore_st_def Let_def
  by (rule frame_rules | assumption)+

lemma preserves_normalize_st: "preserves n (normalize_st x axis) (\<lambda>a. n \<le> a)"
  unfolding normalize_st_def Let_def
  by (rule frame_rules | assumption)+

lemma preserves_compute_xcorr_st: "preserves n (compute_xcorr_st x y) (\<lambda>a. n \<le> a)"
  unfolding compute_xcorr_st_def
  by (rule frame_rules preserves_zscore_st preserves_normalize_st | assumption)+

lemma preserves_group_block:
  "preserves n
     (st_bind (read_float2 x) (\<lambda>X.
      st_bind (st_lift (bool_index X (eq_mask labels grp))) (\<lambda>Xg.
      st_bind (st_alloc (Float2 Xg)) (\<lambda>xg.
      st_bind (read_float2 y) (\<lambda>Y.
      st_bind (st_lift (bool_index Y (eq_mask labels grp))) (\<lambda>Yg.
      st_bind (st_alloc (Float2 Yg)) (\<lambda>yg.
      compute_xcorr_st xg yg)))))))
     (\<lambda>a. n \<le> a)"
  by (rule frame_rules preserves_compute_xcorr_st | assumption)+






lemma zscore_st_computes:
  assumes "s ! x = Float2 X"
  shows "computes (zscore_st x) s Float2 (zscore X)"
  using assms
  unfolding computes_def zscore_st_def zscore_def setitem_st_def setitem_columns_st_def
    st_bind_def st_alloc_def st_return_def st_lift_def st_write_def read_float2_def
    read_float1_def bind_err_def Let_def
  by (auto split: sum.splits simp: nth_append)

lemma normalize_st_computes:
  assumes "s ! x = Float2 X"
  shows "computes (normalize_st x axis) s Float2 (normalize_arr X axis)"
  using assms
  unfolding computes_def normalize_st_def normalize_arr_def setitem_2d_st_def
    st_bind_def st_alloc_def st_return_def st_lift_def st_write_def read_float2_def
    bind_err_def Let_def
  by (auto split: sum.splits simp: nth_append)

lemma dummy_code_st_computes:
  assumes "s ! g = Labels grouping"
  shows "computes (dummy_code_st g) s Int2 (dummy_code grouping)"
  using assms
  unfolding computes_def dummy_code_st_def st_bind_def st_alloc_def st_lift_def read_labels_def
  by (auto split: sum.splits)

lemma reverse_dummy_code_st_computes:
  assumes "s ! y = Int2 Y"
  shows "computes (reverse_dummy_code_st y) s Int1 (reverse_dummy_code Y)"
  using assms
  unfolding computes_def reverse_dummy_code_st_def st_bind_def st_alloc_def st_lift_def
    read_int2_def
  by (auto split: sum.splits)

lemma nth_take_eq:
  assumes "take n s' = take n s" "a < n"
  shows "s' ! a = s ! a"
  by (metis assms nth_take)

lemma computes_bind:
  assumes m: "computes m s kind r" and p: "preserves (length s) m Q"
    and f: "\<And>a s' Z. \<lbrakk>m s = (Inr a, s'); r = Inr Z; s' ! a = kind Z; length s \<le> a;
              a < length s'; take (length s) s' = take (length s) s\<rbrakk>
            \<Longrightarrow> computes (f a) s' kind' (g Z)"
  shows "computes (st_bind m f) s kind' (bind_err r g)"
proof -
  obtain res s1 where run: "m s = (res, s1)" by (cases "m s")
  from p run have fr: "length s \<le> length s1" "take (length s) s1 = take (length s) s"
    by (auto simp: preserves_def)
  show ?thesis
  proof (cases res)
    case (Inl e)
    then have "r = Inl e" using m run by (simp add: computes_def)
    then show ?thesis using run Inl by (simp add: computes_def st_bind_def bind_err_def)
  next
    case (Inr a)
    then obtain Z where Z: "length s \<le> a" "a < length s1" "r = Inr Z" "s1 ! a = kind Z"
      using m run by (auto simp: computes_def)
    from f [OF run [unfolded Inr] Z(3,4,1,2) fr(2)]
    have c: "computes (f a) s1 kind' (g Z)" .
    obtain res2 s2 where run2: "f a s1 = (res2, s2)" by (cases "f a s1")
    show ?thesis
      using c run run2 Inr Z(3) fr(1)
      by (auto simp: computes_def st_bind_def bind_err_def split: sum.splits)
  qed
qed

lemma compute_xcorr_st_computes:
  assumes X: "s ! x = Float2 X" and Y: "s ! y = Float2 Y" and y: "y < length s"
  shows "computes (compute_xcorr_st x y) s Float2 (compute_xcorr X Y)"
  unfolding compute_xcorr_st_def compute_xcorr_def
proof (rule computes_bind [OF zscore_st_computes [OF X] preserves_zscore_st], goal_cases)
  case (1 zx s1 Zx)
  have Y1: "s1 ! y = Float2 Y" "y < length s1"
    using nth_take_eq [OF 1(6) y] Y y 1(4,5) by simp_all
  show ?case
  proof (rule computes_bind [OF normalize_st_computes [OF 1(3)] preserves_normalize_st],
      goal_cases)
    case (1 xnz s2 Xnz)
    have Y2: "s2 ! y = Float2 Y"
      using nth_take_eq [OF 1(6) Y1(2)] Y1(1) by simp
    note two = 1
    show ?case
    proof (rule computes_bind [OF zscore_st_computes [OF Y2] preserves_zscore_st], goal_cases)
      case (1 zy s3 Zy)
      have X3: "s3 ! xnz = Float2 Xnz" "xnz < length s3"
        using nth_take_eq [OF 1(6) two(5)] two(3,5) 1(4,5) by simp_all
      show ?case
      proof (rule computes_bind [OF normalize_st_computes [OF 1(3)] preserves_normalize_st],
          goal_cases)
        case (1 ynz s4 Ynz)
        have X4: "s4 ! xnz = Float2 Xnz"
          using nth_take_eq [OF 1(6) X3(2)] X3(1) by simp
        show ?case
          using 1(3) X4
          unfolding computes_def st_bind_def st_alloc_def st_lift_def read_float2_def bind_err_def
          by (auto split: sum.splits simp: nth_append)
      qed
    qed
  qed
qed

lemma group_block_computes:
  assumes X: "s ! x = Float2 X" and Y: "s ! y = Float2 Y" and y: "y < length s"
  shows "computes
     (st_bind (read_float2 x) (\<lambda>X.
      st_bind (st_lift (bool_index X (eq_mask labels grp))) (\<lambda>Xg.
      st_bind (st_alloc (Float2 Xg)) (\<lambda>xg.
      st_bind (read_float2 y) (\<lambda>Y.
      st_bind (st_lift (bool_index Y (eq_mask labels grp))) (\<lambda>Yg.
      st_bind (st_alloc (Float2 Yg)) (\<lambda>yg.
      compute_xcorr_st xg yg)))))))
     s Float2
     (bind_err (bool_index X (eq_mask labels grp)) (\<lambda>Xg.
      bind_err (bool_index Y (eq_mask labels grp)) (\<lambda>Yg.
      compute_xcorr Xg Yg)))"
proof (cases "bool_index X (eq_mask labels grp)")
  case (Inl e)
  then show ?thesis
    using X by (simp add: computes_def st_bind_def st_lift_def read_float2_def bind_err_def)
next
  case Xg: (Inr Xg)
  show ?thesis
  proof (cases "bool_index Y (eq_mask labels grp)")
    case (Inl e)
    then show ?thesis
      using X Y y Xg
      by (simp add: computes_def st_bind_def st_lift_def st_alloc_def read_float2_def
          bind_err_def nth_append)
  next
    case Yg: (Inr Yg)
    let ?s = "s @ [Float2 Xg, Float2 Yg]"
    have c: "computes (compute_xcorr_st (length s) (Suc (length s))) ?s Float2 (compute_xcorr Xg Yg)"
      by (rule compute_xcorr_st_computes) (simp_all add: nth_append)
    have run: "st_bind (read_float2 x) (\<lambda>X.
      st_bind (st_lift (bool_index X (eq_mask labels grp))) (\<lambda>Xg.
      st_bind (st_alloc (Float2 Xg)) (\<lambda>xg.
      st_bind (read_float2 y) (\<lambda>Y.
      st_bind (st_lift (bool_index Y (eq_mask labels grp))) (\<lambda>Yg.
      st_bind (st_alloc (Float2 Yg)) (\<lambda>yg.
      compute_xcorr_st xg yg)))))) s
      = compute_xcorr_st (length s) (Suc (length s)) ?s"
      using X Y y Xg Yg
      by (simp add: st_bind_def st_lift_def st_alloc_def read_float2_def nth_append)
    show ?thesis
      using c unfolding computes_def run
      by (auto simp: bind_err_def Xg Yg split: sum.splits prod.splits)
  qed
qed

lemma st_list_comp_computes:
  assumes F: "\<And>x s'. take n s' = take n s0 \<Longrightarrow> n \<le> length s' \<Longrightarrow>
                computes (F x) s' Float2 (f x)"
    and P: "\<And>x k. preserves k (F x) (\<lambda>a. k \<le> a)"
    and s: "take n s = take n s0" "n \<le> length s"
  shows "case st_list_comp F xs s of
           (Inl e, s') \<Rightarrow> list_comp f xs = Inl e
         | (Inr as, s') \<Rightarrow>
             (\<exists>Zs. list_comp f xs = Inr Zs \<and> map ((!) s') as = map Float2 Zs)
             \<and> take n s' = take n s0 \<and> n \<le> length s'"
  using s
proof (induction xs arbitrary: s)
  case Nil
  then show ?case by (simp add: st_return_def)
next
  case (Cons x xs)
  obtain r1 s1 where run1: "F x s = (r1, s1)" by (cases "F x s")
  have c1: "computes (F x) s Float2 (f x)" by (rule F [OF Cons.prems])
  from P [of n x] Cons.prems(2) run1
  have fr1: "length s \<le> length s1" "take n s1 = take n s"
    by (auto simp: preserves_def)
  show ?case
  proof (cases r1)
    case (Inl e)
    then show ?thesis using c1 run1 by (simp add: computes_def st_bind_def)
  next
    case (Inr a)
    then obtain Z where Z: "f x = Inr Z" "s1 ! a = Float2 Z" "a < length s1"
      using c1 run1 by (auto simp: computes_def)
    have s1: "take n s1 = take n s0" "n \<le> length s1"
      using fr1 Cons.prems by simp_all
    obtain r2 s2 where run2: "st_list_comp F xs s1 = (r2, s2)"
      by (cases "st_list_comp F xs s1")
    have ih: "case (r2, s2) of
           (Inl e, s') \<Rightarrow> list_comp f xs = Inl e
         | (Inr as, s') \<Rightarrow>
             (\<exists>Zs. list_comp f xs = Inr Zs \<and> map ((!) s') as = map Float2 Zs)
             \<and> take n s' = take n s0 \<and> n \<le> length s'"
      using Cons.IH [OF s1] run2 by simp
    have "preserves (length s1) (st_list_comp F xs) (\<lambda>ys. \<forall>y \<in> set ys. length s1 \<le> y)"
      by (rule preserves_list_comp [OF P])
    then have "take (length s1) s2 = take (length s1) s1"
      using run2 by (auto simp: preserves_def)
    then have keep: "s2 ! a = Float2 Z"
      using nth_take_eq [of "length s1" s2 s1 a] Z(2,3) by simp
    show ?thesis
    proof (cases r2)
      case (Inl e)
      then show ?thesis
        using ih run1 run2 Inr Z(1) by (simp add: st_bind_def)
    next
      case as: (Inr as)
      then show ?thesis
        using ih run1 run2 Inr Z(1) keep by (auto simp: st_bind_def st_return_def)
    qed
  qed
qed

lemma read_blocks:
  assumes "map ((!) s) as = map Float2 Zs"
  shows "st_list_comp read_float2 as s = (Inr Zs, s)"
  using assms
proof (induction as arbitrary: Zs)
  case Nil
  then show ?case by (simp add: st_return_def)
next
  case (Cons a as)
  then obtain Z Zs' where Zs: "Zs = Z # Zs'" by (cases Zs) auto
  with Cons.prems have "s ! a = Float2 Z" "map ((!) s) as = map Float2 Zs'" by simp_all
  with Cons.IH [of Zs'] show ?case
    by (simp add: Zs st_bind_def st_return_def read_float2_def)
qed

lemma xcorr_st_computes:
  assumes X: "s ! x = Float2 X" and Y: "s ! y = Float2 Y" and xy: "x < length s" "y < length s"
    and g: "s ! g = Labels labels"
  shows "computes (xcorr_st x y None) s Float2 (xcorr X Y (None :: 'l::linorder list option))"
    and "computes (xcorr_st x y (Some g)) s Float2 (xcorr X Y (Some labels))"
proof -
  show "computes (xcorr_st x y None) s Float2 (xcorr X Y (None :: 'l list option))"
    using compute_xcorr_st_computes [OF X Y xy(2)] by (simp add: xcorr_st_def xcorr_def)
  let ?F = "\<lambda>grp. st_bind (read_float2 x) (\<lambda>X.
      st_bind (st_lift (bool_index X (eq_mask labels grp))) (\<lambda>Xg.
      st_bind (st_alloc (Float2 Xg)) (\<lambda>xg.
      st_bind (read_float2 y) (\<lambda>Y.
      st_bind (st_lift (bool_index Y (eq_mask labels grp))) (\<lambda>Yg.
      st_bind (st_alloc (Float2 Yg)) (\<lambda>yg.
      compute_xcorr_st xg yg))))))"
  let ?f = "\<lambda>grp. bind_err (bool_index X (eq_mask labels grp)) (\<lambda>Xg.
      bind_err (bool_index Y (eq_mask labels grp)) (\<lambda>Yg.
      compute_xcorr Xg Yg))"
  have F: "computes (?F grp) s' Float2 (?f grp)"
    if "take (length s) s' = take (length s) s" "length s \<le> length s'" for grp s'
  proof -
    have "s' ! x = Float2 X" "s' ! y = Float2 Y" "y < length s'"
      using nth_take_eq [OF that(1) xy(1)] nth_take_eq [OF that(1) xy(2)] X Y xy that(2)
      by simp_all
    then show ?thesis by (rule group_block_computes)
  qed
  obtain r1 s1 where run1: "st_list_comp ?F (unique labels) s = (r1, s1)"
    by (cases "st_list_comp ?F (unique labels) s")
  have lc: "case (r1, s1) of
           (Inl e, s') \<Rightarrow> list_comp ?f (unique labels) = Inl e
         | (Inr as, s') \<Rightarrow>
             (\<exists>Zs. list_comp ?f (unique labels) = Inr Zs \<and> map ((!) s') as = map Float2 Zs)
             \<and> take (length s) s' = take (length s) s \<and> length s \<le> length s'"
    using st_list_comp_computes [where F = ?F and f = ?f and n = "length s" and s = s
        and ?s0.0 = s and xs = "unique labels", OF F preserves_group_block] run1
    by simp
  show "computes (xcorr_st x y (Some g)) s Float2 (xcorr X Y (Some labels))"
  proof (cases r1)
    case (Inl e)
    then show ?thesis
      using lc run1 g
      by (simp add: computes_def xcorr_st_def xcorr_def st_bind_def read_labels_def bind_err_def)
  next
    case (Inr as)
    then obtain Zs where Zs: "list_comp ?f (unique labels) = Inr Zs"
      "map ((!) s1) as = map Float2 Zs" "length s \<le> length s1"
      using lc by auto
    have rd: "st_list_comp read_float2 as s1 = (Inr Zs, s1)"
      by (rule read_blocks [OF Zs(2)])
    show ?thesis
      using run1 g Inr Zs(1,3) rd
      by (auto simp: computes_def xcorr_st_def xcorr_def st_bind_def read_labels_def bind_err_def
          st_lift_def st_alloc_def split: sum.splits)
  qed
qed



end
